theory Spec2Isabelle
  imports Main
begin

section \<open>Strings and the tables of the interpreter\<close>

text \<open>
  A Python \<^verbatim>\<open>str\<close> is a sequence of code points. The response text of the model,
  which \<^verbatim>\<open>analyz_match\<close> searches, and what is cut out of it (the captured groups,
  the recommendation) are lists of code points, of any size. The strings that the
  program only passes on or builds from literals (names, addresses, titles, the CV
  text, the job description, messages, keys) are lists of characters; the program
  never looks at the characters in them.
\<close>

type_synonym ustring = "nat list"

text \<open>The \<^verbatim>\<open>str\<close> that a literal of the program denotes.\<close>

definition ustr :: "string \<Rightarrow> ustring" where
  "ustr s = map of_char s"

text \<open>
  What the program takes from the interpreter it runs on: the tables of the Unicode
  database behind \<^verbatim>\<open>\d\<close> and \<^verbatim>\<open>int\<close> (the decimal digits with their values),
  behind \<^verbatim>\<open>\s\<close> (the white space) and behind \<^verbatim>\<open>\w\<close> and \<^verbatim>\<open>\b\<close> (the
  alphanumeric code points), which grow from one version of Unicode to the next, and
  the limit on the number of digits that \<^verbatim>\<open>int\<close> converts
  (\<^verbatim>\<open>sys.get_int_max_str_digits()\<close>: 4300 unless it is set otherwise, 0 for no
  limit). The program sets none of them.
\<close>

record runtime =
  decimal :: "nat \<Rightarrow> nat option"
  whitespace :: "nat \<Rightarrow> bool"
  alnum :: "nat \<Rightarrow> bool"
  int_max_str_digits :: nat

definition is_digit :: "runtime \<Rightarrow> nat \<Rightarrow> bool" where
  "is_digit rt c = (decimal rt c \<noteq> None)"

definition is_space :: "runtime \<Rightarrow> nat \<Rightarrow> bool" where
  "is_space rt c = whitespace rt c"

text \<open>\<^verbatim>\<open>\w\<close>: the alphanumeric code points and the underscore.\<close>

definition is_word :: "runtime \<Rightarrow> nat \<Rightarrow> bool" where
  "is_word rt c = (alnum rt c \<or> c = 0x5F)"

text \<open>
  Under \<^verbatim>\<open>re.IGNORECASE\<close> a character of a pattern matches the code points whose
  lower case is its lower case, and those that the module adds to them. For an ASCII
  character these are: for a letter, the letter in both cases, and besides them
  U+0130 and U+0131 for \<^verbatim>\<open>i\<close>, U+212A for \<^verbatim>\<open>k\<close> and U+017F for \<^verbatim>\<open>s\<close>; for
  any other character, the character alone. The patterns of \<^verbatim>\<open>analyz_match\<close> consist
  of ASCII characters.
\<close>

definition ci_class :: "char \<Rightarrow> nat list" where
  "ci_class a =
     (let n = of_char a in
      if a \<in> set ''iI'' then [0x49, 0x69, 0x130, 0x131]
      else if a \<in> set ''kK'' then [0x4B, 0x6B, 0x212A]
      else if a \<in> set ''sS'' then [0x53, 0x73, 0x17F]
      else if 0x41 \<le> n \<and> n \<le> 0x5A then [n, n + 0x20]
      else if 0x61 \<le> n \<and> n \<le> 0x7A then [n - 0x20, n]
      else [n])"

text \<open>\<^verbatim>\<open>str.upper\<close> on the ASCII characters; it is applied to ASCII letters only.\<close>

definition upper :: "nat \<Rightarrow> nat" where
  "upper c = (if 0x61 \<le> c \<and> c \<le> 0x7A then c - 0x20 else c)"

section \<open>Regular expressions with the priorities of a backtracking matcher\<close>

text \<open>
  The fragment of the pattern language that \<^verbatim>\<open>analyz_match\<close> uses: literals, the
  dot, \<^verbatim>\<open>\d\<close>, \<^verbatim>\<open>\s\<close>, \<^verbatim>\<open>\b\<close>, the greedy quantifiers \<^verbatim>\<open>?\<close>, \<^verbatim>\<open>*\<close>,
  \<^verbatim>\<open>+\<close> and the lazy \<^verbatim>\<open>*?\<close> on one-character items, concatenation,
  alternation and the one capturing group of each pattern.
\<close>

datatype atom = Lit char | Dot | Digit | Space

datatype regex =
    Eps
  | Atom atom
  | Opt atom
  | Star atom
  | Plus atom
  | LazyStar atom
  | WordB
  | Seq regex regex
  | Alt regex regex
  | Group regex

text \<open>
  A state of the matcher: the character before the current position (none at the
  start of the text), the text from the current position on, and what group 1 has
  captured so far.
\<close>

type_synonym mstate = "nat option \<times> ustring \<times> ustring option"

fun atom_ok :: "runtime \<Rightarrow> bool \<Rightarrow> atom \<Rightarrow> nat \<Rightarrow> bool" where
  "atom_ok rt ic (Lit a) c = (if ic then c \<in> set (ci_class a) else c = of_char a)"
| "atom_ok rt ic Dot c = (c \<noteq> 0x0A)"
| "atom_ok rt ic Digit c = is_digit rt c"
| "atom_ok rt ic Space c = is_space rt c"

text \<open>
  \<open>greedy\<close> and \<open>lazy\<close> list the positions a starred item can stop at, in the
  order a backtracking matcher tries them: longest first, or shortest first.
\<close>

fun greedy :: "(nat \<Rightarrow> bool) \<Rightarrow> nat option \<Rightarrow> ustring \<Rightarrow> ustring option \<Rightarrow> mstate list" where
  "greedy P p [] g = [(p, [], g)]"
| "greedy P p (c # cs) g =
     (if P c then greedy P (Some c) cs g @ [(p, c # cs, g)] else [(p, c # cs, g)])"

fun lazy :: "(nat \<Rightarrow> bool) \<Rightarrow> nat option \<Rightarrow> ustring \<Rightarrow> ustring option \<Rightarrow> mstate list" where
  "lazy P p [] g = [(p, [], g)]"
| "lazy P p (c # cs) g =
     (if P c then (p, c # cs, g) # lazy P (Some c) cs g else [(p, c # cs, g)])"

text \<open>
  \<^verbatim>\<open>\b\<close>: exactly one of the characters before and after the position is a word
  character; the start and the end of the text count as non-word characters.
\<close>

definition at_boundary :: "runtime \<Rightarrow> nat option \<Rightarrow> ustring \<Rightarrow> bool" where
  "at_boundary rt p cs =
     ((case p of None \<Rightarrow> False | Some c \<Rightarrow> is_word rt c) \<noteq>
      (case cs of [] \<Rightarrow> False | c # _ \<Rightarrow> is_word rt c))"

text \<open>
  \<open>ends rt ic r s\<close> lists the states in which a match of \<open>r\<close> that starts in state
  \<open>s\<close> can end, in the order of the matcher's preferences; the matcher takes the
  first. \<open>ic\<close> is the flag \<^verbatim>\<open>re.IGNORECASE\<close>.
\<close>

fun step :: "runtime \<Rightarrow> bool \<Rightarrow> atom \<Rightarrow> mstate \<Rightarrow> mstate list" where
  "step rt ic a (p, [], g) = []"
| "step rt ic a (p, c # cs, g) = (if atom_ok rt ic a c then [(Some c, cs, g)] else [])"

fun star :: "runtime \<Rightarrow> bool \<Rightarrow> atom \<Rightarrow> mstate \<Rightarrow> mstate list" where
  "star rt ic a (p, cs, g) = greedy (atom_ok rt ic a) p cs g"

fun lazy_star :: "runtime \<Rightarrow> bool \<Rightarrow> atom \<Rightarrow> mstate \<Rightarrow> mstate list" where
  "lazy_star rt ic a (p, cs, g) = lazy (atom_ok rt ic a) p cs g"

fun capture :: "ustring \<Rightarrow> mstate \<Rightarrow> mstate" where
  "capture cs (p', cs', g') = (p', cs', Some (take (length cs - length cs') cs))"

fun ends :: "runtime \<Rightarrow> bool \<Rightarrow> regex \<Rightarrow> mstate \<Rightarrow> mstate list" where
  "ends rt ic Eps s = [s]"
| "ends rt ic (Atom a) s = step rt ic a s"
| "ends rt ic (Opt a) s = step rt ic a s @ [s]"
| "ends rt ic (Star a) s = star rt ic a s"
| "ends rt ic (Plus a) s = concat (map (star rt ic a) (step rt ic a s))"
| "ends rt ic (LazyStar a) s = lazy_star rt ic a s"
| "ends rt ic WordB (p, cs, g) = (if at_boundary rt p cs then [(p, cs, g)] else [])"
| "ends rt ic (Seq r1 r2) s = concat (map (ends rt ic r2) (ends rt ic r1 s))"
| "ends rt ic (Alt r1 r2) s = ends rt ic r1 s @ ends rt ic r2 s"
| "ends rt ic (Group r) (p, cs, g) = map (capture cs) (ends rt ic r (p, cs, g))"

text \<open>
  \<^verbatim>\<open>re.search\<close>: the first start position, from the left, at which the pattern
  matches, with the match the matcher prefers there; \<open>None\<close> when there is none.
\<close>

fun search_from :: "runtime \<Rightarrow> bool \<Rightarrow> regex \<Rightarrow> nat option \<Rightarrow> ustring \<Rightarrow> mstate option" where
  "search_from rt ic r p [] =
     (case ends rt ic r (p, [], None) of [] \<Rightarrow> None | e # _ \<Rightarrow> Some e)"
| "search_from rt ic r p (c # cs) =
     (case ends rt ic r (p, c # cs, None) of
        [] \<Rightarrow> search_from rt ic r (Some c) cs
      | e # _ \<Rightarrow> Some e)"

definition re_search :: "runtime \<Rightarrow> bool \<Rightarrow> regex \<Rightarrow> ustring \<Rightarrow> mstate option" where
  "re_search rt ic r t = search_from rt ic r None t"

text \<open>\<^verbatim>\<open>match.group(1)\<close>: the text group 1 captured, \<open>None\<close> if it took no part.\<close>

definition group1 :: "mstate \<Rightarrow> ustring option" where
  "group1 m = snd (snd m)"

text \<open>
  Group 1 of the match that the matcher prefers among the ends of a match, when
  there is a match.
\<close>

definition preferred_group :: "mstate list \<Rightarrow> ustring option option" where
  "preferred_group ms = (case ms of [] \<Rightarrow> None | e # _ \<Rightarrow> Some (group1 e))"

fun lits :: "string \<Rightarrow> regex" where
  "lits [] = Eps"
| "lits (c # cs) = Seq (Atom (Lit c)) (lits cs)"

section \<open>Exceptions and conversions\<close>

text \<open>
  A raised exception is a value: the name of its class and its text
  (\<^verbatim>\<open>str(e)\<close>). A function that can raise returns \<open>exn + 'a\<close>, with \<open>Inl\<close>
  for the exception.
\<close>

datatype exn = Exn string string

fun exn_str :: "exn \<Rightarrow> string" where
  "exn_str (Exn cls msg) = msg"

text \<open>The decimal rendering of a number, as \<^verbatim>\<open>%d\<close> gives it.\<close>

fun show_nat :: "nat \<Rightarrow> string" where
  "show_nat n =
     (if n < 10 then [''0123456789'' ! n]
      else show_nat (n div 10) @ [''0123456789'' ! (n mod 10)])"

declare show_nat.simps [simp del]

definition digit_val :: "runtime \<Rightarrow> nat \<Rightarrow> int" where
  "digit_val rt c = (case decimal rt c of Some d \<Rightarrow> int d | None \<Rightarrow> 0)"

definition digits_value :: "runtime \<Rightarrow> ustring \<Rightarrow> int" where
  "digits_value rt s = foldl (\<lambda>n c. 10 * n + digit_val rt c) 0 s"

text \<open>
  \<^verbatim>\<open>int(s)\<close> on a non-empty run of decimal digits. Python's integers are unbounded,
  but the conversion is not: when the run has more than 640 digits and the limit of
  the interpreter is not 0, a run with more digits than the limit raises
  \<^verbatim>\<open>ValueError\<close>; leading zeros count. Otherwise the result is the number the run
  denotes in base ten. On any other string the model raises \<^verbatim>\<open>ValueError\<close>, with the
  text of the message up to the string it quotes (signs, blanks and underscores,
  which \<^verbatim>\<open>int\<close> also reads, never reach it from \<^verbatim>\<open>(\d+)\<close>).
\<close>

definition exceeds_digit_limit :: "runtime \<Rightarrow> ustring \<Rightarrow> bool" where
  "exceeds_digit_limit rt s =
     (640 < length s \<and> 0 < int_max_str_digits rt \<and> int_max_str_digits rt < length s)"

definition py_int :: "runtime \<Rightarrow> ustring \<Rightarrow> exn + int" where
  "py_int rt s =
     (if s \<noteq> [] \<and> list_all (is_digit rt) s then
        (if exceeds_digit_limit rt s then
           Inl (Exn ''ValueError''
             (''Exceeds the limit ('' @ show_nat (int_max_str_digits rt) @
              '' digits) for integer string conversion: value has '' @
              show_nat (length s) @
              '' digits; use sys.set_int_max_str_digits() to increase the limit''))
         else Inr (digits_value rt s))
      else Inl (Exn ''ValueError'' ''invalid literal for int() with base 10''))"

text \<open>\<^verbatim>\<open>int(match.group(1))\<close>: \<^verbatim>\<open>int(None)\<close> raises \<^verbatim>\<open>TypeError\<close>.\<close>

definition int_group1 :: "runtime \<Rightarrow> mstate \<Rightarrow> exn + int" where
  "int_group1 rt m =
     (case group1 m of
        None \<Rightarrow> Inl (Exn ''TypeError'' ''int() argument must not be NoneType'')
      | Some s \<Rightarrow> py_int rt s)"

text \<open>
  \<^verbatim>\<open>rec_match.group(1).upper()\<close>: \<^verbatim>\<open>None\<close> has no method \<^verbatim>\<open>upper\<close>. The captured
  text consists of ASCII letters, on which \<^verbatim>\<open>str.upper\<close> is \<open>map upper\<close>.
\<close>

definition upper_group1 :: "mstate \<Rightarrow> exn + ustring" where
  "upper_group1 m =
     (case group1 m of
        None \<Rightarrow> Inl (Exn ''AttributeError'' ''NoneType object has no attribute upper'')
      | Some s \<Rightarrow> Inr (map upper s))"

section \<open>The Match Evaluator: \<^verbatim>\<open>analyz_match\<close>\<close>

text \<open>\<^verbatim>\<open>r'Match Percentage:?\s*(\d+)'\<close>\<close>

definition match_percentage_pattern :: regex where
  "match_percentage_pattern =
     Seq (lits ''Match Percentage'')
       (Seq (Opt (Lit CHR '':'')) (Seq (Star Space) (Group (Plus Digit))))"

text \<open>
  \<^verbatim>\<open>r'Match Percentage:?\s*(\d+)%'\<close>, \<^verbatim>\<open>r'Match Percentage.*?(\d+)'\<close> and
  \<^verbatim>\<open>r'match.*?(\d+)%'\<close>
\<close>

definition alt_patterns :: "regex list" where
  "alt_patterns =
     [Seq (lits ''Match Percentage'')
        (Seq (Opt (Lit CHR '':''))
           (Seq (Star Space) (Seq (Group (Plus Digit)) (Atom (Lit CHR ''%''))))),
      Seq (lits ''Match Percentage'') (Seq (LazyStar Dot) (Group (Plus Digit))),
      Seq (lits ''match'')
        (Seq (LazyStar Dot) (Seq (Group (Plus Digit)) (Atom (Lit CHR ''%''))))]"

text \<open>
  \<^verbatim>\<open>r'Recommendation:?\s*(ACCEPT|REJECT)'\<close>, \<^verbatim>\<open>r'Recommendation:?\s*(Accept|Reject)'\<close>,
  \<^verbatim>\<open>r'Recommendation.*?(ACCEPT|REJECT)'\<close> and \<^verbatim>\<open>r'Recommendation.*?(Accept|Reject)'\<close>
\<close>

definition recommendation_patterns :: "regex list" where
  "recommendation_patterns =
     [Seq (lits ''Recommendation'')
        (Seq (Opt (Lit CHR '':''))
           (Seq (Star Space) (Group (Alt (lits ''ACCEPT'') (lits ''REJECT''))))),
      Seq (lits ''Recommendation'')
        (Seq (Opt (Lit CHR '':''))
           (Seq (Star Space) (Group (Alt (lits ''Accept'') (lits ''Reject''))))),
      Seq (lits ''Recommendation'')
        (Seq (LazyStar Dot) (Group (Alt (lits ''ACCEPT'') (lits ''REJECT'')))),
      Seq (lits ''Recommendation'')
        (Seq (LazyStar Dot) (Group (Alt (lits ''Accept'') (lits ''Reject''))))]"

text \<open>\<^verbatim>\<open>r'\baccept\b'\<close>\<close>

definition accept_word_pattern :: regex where
  "accept_word_pattern = Seq WordB (Seq (lits ''accept'') WordB)"

text \<open>
  The loop over \<^verbatim>\<open>alt_patterns\<close>, entered with \<^verbatim>\<open>match_percentage = 0\<close>: the first
  pattern that matches sets the percentage and breaks.
\<close>

fun alt_loop :: "runtime \<Rightarrow> regex list \<Rightarrow> ustring \<Rightarrow> exn + int" where
  "alt_loop rt [] response_text = Inr 0"
| "alt_loop rt (pattern # rest) response_text =
     (case re_search rt True pattern response_text of
        Some alt_match \<Rightarrow> int_group1 rt alt_match
      | None \<Rightarrow> alt_loop rt rest response_text)"

definition parse_percentage :: "runtime \<Rightarrow> ustring \<Rightarrow> exn + int" where
  "parse_percentage rt response_text =
     (case re_search rt False match_percentage_pattern response_text of
        Some m \<Rightarrow> int_group1 rt m
      | None \<Rightarrow> alt_loop rt alt_patterns response_text)"

text \<open>
  The loop over \<^verbatim>\<open>recommendation_patterns\<close>, entered with
  \<^verbatim>\<open>recommendation = None\<close>.
\<close>

fun rec_loop :: "runtime \<Rightarrow> regex list \<Rightarrow> ustring \<Rightarrow> exn + ustring option" where
  "rec_loop rt [] response_text = Inr None"
| "rec_loop rt (pattern # rest) response_text =
     (case re_search rt True pattern response_text of
        Some rec_match \<Rightarrow>
          (case upper_group1 rec_match of Inl e \<Rightarrow> Inl e | Inr u \<Rightarrow> Inr (Some u))
      | None \<Rightarrow> rec_loop rt rest response_text)"

definition parse_recommendation :: "runtime \<Rightarrow> ustring \<Rightarrow> exn + ustring" where
  "parse_recommendation rt response_text =
     (case rec_loop rt recommendation_patterns response_text of
        Inl e \<Rightarrow> Inl e
      | Inr (Some recommendation) \<Rightarrow> Inr recommendation
      | Inr None \<Rightarrow>
          (if re_search rt True accept_word_pattern response_text \<noteq> None
           then Inr (ustr ''ACCEPT'') else Inr (ustr ''REJECT'')))"

text \<open>Lines 86 to 131 of \<^verbatim>\<open>analyz_match\<close>: from the response text to the triple.\<close>

definition parse_response :: "runtime \<Rightarrow> ustring \<Rightarrow> exn + (ustring \<times> int \<times> ustring)" where
  "parse_response rt response_text =
     (case parse_percentage rt response_text of
        Inl e \<Rightarrow> Inl e
      | Inr match_percentage \<Rightarrow>
          (case parse_recommendation rt response_text of
             Inl e \<Rightarrow> Inl e
           | Inr recommendation \<Rightarrow> Inr (response_text, match_percentage, recommendation)))"

text \<open>
  What \<^verbatim>\<open>chain.invoke\<close> returns: a dictionary (its entries, and its \<^verbatim>\<open>str\<close>), a
  string, or another object (its \<^verbatim>\<open>str\<close>).
\<close>

datatype llm_response =
  RDict "(string \<times> ustring) list" ustring | RStr ustring | ROther ustring

fun response_text_of :: "llm_response \<Rightarrow> ustring" where
  "response_text_of (RDict d rendering) =
     (case map_of d ''text'' of Some t \<Rightarrow> t | None \<Rightarrow> rendering)"
| "response_text_of (RStr s) = s"
| "response_text_of (ROther rendering) = rendering"

text \<open>
  The world outside the program: what \<^verbatim>\<open>PdfReader\<close> makes of an uploaded file
  (it raises, or gives the pages, each of which yields its text or raises on
  \<^verbatim>\<open>extract_text\<close>), what the language model answers to a CV text and a job
  description (or the exception of the call), what the SMTP session does with a
  message (\<open>None\<close>: delivered; \<open>Some e\<close>: an \<^verbatim>\<open>Exception\<close> raised inside the
  \<^verbatim>\<open>try\<close> block of \<^verbatim>\<open>send_email\<close>), and the interpreter the program runs on.
\<close>

record env =
  pdf_reader :: "string \<Rightarrow> nat list \<Rightarrow> exn + (exn + string) list"
  chain_invoke :: "string \<Rightarrow> string \<Rightarrow> exn + llm_response"
  smtp_session :: "string \<Rightarrow> string \<Rightarrow> string \<Rightarrow> exn option"
  interpreter :: runtime

definition analyz_match :: "env \<Rightarrow> string \<Rightarrow> string \<Rightarrow> exn + (ustring \<times> int \<times> ustring)" where
  "analyz_match ev cv_text job_description =
     (case chain_invoke ev cv_text job_description of
        Inl e \<Rightarrow> Inl e
      | Inr response \<Rightarrow> parse_response (interpreter ev) (response_text_of response))"

section \<open>The world the program acts on\<close>

text \<open>
  The effects of one submission: the temporary directories that exist (created by
  \<^verbatim>\<open>tempfile.TemporaryDirectory()\<close>, each with a fresh name, and removed by
  \<^verbatim>\<open>cleanup()\<close> together with the files in them), and the trace of what the
  Orchestrator did about the email: the message it composed, the call of
  \<^verbatim>\<open>send_email\<close>, and the delivery when the SMTP session went through.
\<close>

datatype event =
    Composed string string
  | SendCall string string string
  | Delivered string string string

record world =
  tmp_next :: nat
  tmp_dirs :: "nat list"
  trace :: "event list"

record uploaded_file =
  upload_name :: string
  upload_buffer :: "nat list"

section \<open>The Document Text Extractor: \<^verbatim>\<open>pdf_loader\<close>\<close>

text \<open>The loop \<^verbatim>\<open>for page in pdf_reader.pages: text += page.extract_text()\<close>.\<close>

fun extract_pages :: "(exn + string) list \<Rightarrow> string \<Rightarrow> exn + string" where
  "extract_pages [] text = Inr text"
| "extract_pages (page # pages) text =
     (case page of Inl e \<Rightarrow> Inl e | Inr t \<Rightarrow> extract_pages pages (text @ t))"

text \<open>
  \<^verbatim>\<open>pdf_loader\<close> creates the temporary directory, writes the upload into it, reads
  it back with \<^verbatim>\<open>PdfReader\<close> and joins the texts of the pages;
  \<^verbatim>\<open>temp_dir.cleanup()\<close> is the statement after the \<^verbatim>\<open>with\<close> block, so an
  exception raised in the block leaves the function before it.
\<close>

definition pdf_loader :: "env \<Rightarrow> world \<Rightarrow> uploaded_file \<Rightarrow> (exn + string) \<times> world" where
  "pdf_loader ev w pdf_file =
     (let temp_dir = tmp_next w;
          w1 = w\<lparr>tmp_next := Suc temp_dir, tmp_dirs := temp_dir # tmp_dirs w\<rparr>
      in case pdf_reader ev (upload_name pdf_file) (upload_buffer pdf_file) of
           Inl e \<Rightarrow> (Inl e, w1)
         | Inr pages \<Rightarrow>
             (case extract_pages pages [] of
                Inl e \<Rightarrow> (Inl e, w1)
              | Inr text \<Rightarrow> (Inr text, w1\<lparr>tmp_dirs := removeAll temp_dir (tmp_dirs w1)\<rparr>)))"

section \<open>The Notification Composer: \<^verbatim>\<open>email_content\<close>\<close>

definition email_content :: "string \<Rightarrow> string \<Rightarrow> bool \<Rightarrow> string \<times> string" where
  "email_content applicant_name job_title is_match =
     (if is_match then
        (''Congratulations! Your Application for '' @ job_title,
         ''Dear '' @ applicant_name @ '',\<newline>'' @
         ''\<newline>'' @
         ''We are pleased to inform you that your CV has been reviewed and shows a strong match with our '' @
           job_title @ '' position.\<newline>'' @
         ''We would like to invite you to the next stage of our recruitment process.\<newline>'' @
         ''Our team will contact you shortly with further details.\<newline>'' @
         ''\<newline>'' @
         ''Before that you need to complete this MCQ based test.\<newline>'' @
         ''MCQs.\<newline>'' @
         ''1. What is the capital of France?\<newline>'' @
         ''Option A: Paris\<newline>'' @
         ''Option B: London\<newline>'' @
         ''Option C: New York\<newline>'' @
         ''Option D: Tokyo\<newline>'' @
         ''\<newline>'' @
         ''Best regards,\<newline>'' @
         ''Recruitment Team\<newline>'')
      else
        (''Regarding your application for '' @ job_title,
         ''Dear '' @ applicant_name @ '',\<newline>'' @
         ''\<newline>'' @
         ''Thank you for your interest in the '' @ job_title @ '' position.\<newline>'' @
         ''After careful review of your application, we regret to inform you that we will not be moving forward with your candidacy at this time.\<newline>'' @
         ''We appreciate your interest in our company and wish you the best in your job search.\<newline>'' @
         ''\<newline>'' @
         ''Best regards,\<newline>'' @
         ''Recruitment Team\<newline>''))"

section \<open>The Notifier: \<^verbatim>\<open>send_email\<close>\<close>

text \<open>
  The whole body of \<^verbatim>\<open>send_email\<close> is one \<^verbatim>\<open>try\<close> block with
  \<^verbatim>\<open>except Exception as e\<close>: building the message, the connection, the optional
  login and the sending either all go through, or raise an exception that is
  turned into the pair \<^verbatim>\<open>(False, f'Failed to send email: {str(e)}')\<close>.
\<close>

definition send_email :: "env \<Rightarrow> world \<Rightarrow> string \<Rightarrow> string \<Rightarrow> string \<Rightarrow> (bool \<times> string) \<times> world" where
  "send_email ev w recipient_email subject body =
     (let w1 = w\<lparr>trace := trace w @ [SendCall recipient_email subject body]\<rparr>
      in case smtp_session ev recipient_email subject body of
           None \<Rightarrow>
             ((True, ''Email sent successfully!''),
              w1\<lparr>trace := trace w1 @ [Delivered recipient_email subject body]\<rparr>)
         | Some e \<Rightarrow> ((False, ''Failed to send email: '' @ exn_str e), w1))"

section \<open>The Application Orchestrator: \<^verbatim>\<open>process_application\<close>\<close>

text \<open>
  The values of the dictionary that \<^verbatim>\<open>process_application\<close> returns; \<open>PText\<close> is
  a \<^verbatim>\<open>str\<close> given by its code points.
\<close>

datatype pyval = PBool bool | PStr string | PInt int | PText ustring

type_synonym result = "(string \<times> pyval) list"

definition process_application ::
  "env \<Rightarrow> world \<Rightarrow> uploaded_file \<Rightarrow> string \<Rightarrow> string \<Rightarrow> string \<Rightarrow> string \<Rightarrow> int
     \<Rightarrow> (exn + result) \<times> world" where
  "process_application ev w cv_file applicant_name applicant_email job_title job_description
       match_threshold =
     (case pdf_loader ev w cv_file of
        (Inl e, w1) \<Rightarrow> (Inl e, w1)
      | (Inr cv_text, w1) \<Rightarrow>
          (case analyz_match ev cv_text job_description of
             Inl e \<Rightarrow> (Inl e, w1)
           | Inr (analysis_text, match_percentage, recommendation) \<Rightarrow>
               if analysis_text = [] then
                 (Inr [(''success'', PBool False),
                       (''message'', PStr ''Failed to analyze the CV.'')], w1)
               else
                 (let is_match =
                        (match_percentage \<ge> match_threshold \<or> recommendation = ustr ''ACCEPT'');
                      (email_subject, email_body) =
                        email_content applicant_name job_title is_match;
                      w2 = w1\<lparr>trace := trace w1 @ [Composed email_subject email_body]\<rparr>;
                      ((email_success, email_message), w3) =
                        send_email ev w2 applicant_email email_subject email_body
                  in (Inr [(''success'', PBool True),
                           (''applicant_name'', PStr applicant_name),
                           (''job_title'', PStr job_title),
                           (''match_percentage'', PInt match_percentage),
                           (''recommendation'', PStr (if is_match then ''Accept'' else ''Reject'')),
                           (''email_sent'', PBool email_success),
                           (''email_message'', PStr email_message),
                           (''analysis'', PText analysis_text)], w3))))"

section \<open>Notions of the specification\<close>

text \<open>
  What the theorems assume of the interpreter: on the ASCII range its tables are
  those of every version of Unicode (the digits \<^verbatim>\<open>0\<close> to \<^verbatim>\<open>9\<close> with their values;
  the white space U+0009 to U+000D, U+001C to U+001F and the blank; the letters and
  digits), and no white space is a decimal digit.
\<close>

definition ascii_decimal :: "nat \<Rightarrow> nat option" where
  "ascii_decimal c = (if 0x30 \<le> c \<and> c \<le> 0x39 then Some (c - 0x30) else None)"

definition ascii_whitespace :: "nat \<Rightarrow> bool" where
  "ascii_whitespace c = (0x09 \<le> c \<and> c \<le> 0x0D \<or> 0x1C \<le> c \<and> c \<le> 0x20)"

definition ascii_alnum :: "nat \<Rightarrow> bool" where
  "ascii_alnum c =
     (0x30 \<le> c \<and> c \<le> 0x39 \<or> 0x41 \<le> c \<and> c \<le> 0x5A \<or> 0x61 \<le> c \<and> c \<le> 0x7A)"

definition runtime_ok :: "runtime \<Rightarrow> bool" where
  "runtime_ok rt =
     ((\<forall>c<128. decimal rt c = ascii_decimal c \<and>
               whitespace rt c = ascii_whitespace c \<and>
               alnum rt c = ascii_alnum c) \<and>
      (\<forall>c. whitespace rt c \<longrightarrow> decimal rt c = None))"

text \<open>
  The interpreter of the examples: the limit of 4300 digits, and the tables of
  Unicode on U+0000 to U+00FF, with no code point beyond it in any of them. The
  texts of the examples are ASCII.
\<close>

definition latin1_runtime :: runtime where
  "latin1_runtime =
     \<lparr>decimal = ascii_decimal,
      whitespace = (\<lambda>c. ascii_whitespace c \<or> c = 0x85 \<or> c = 0xA0),
      alnum = (\<lambda>c. ascii_alnum c \<or>
                 c \<in> set [0xAA, 0xB2, 0xB3, 0xB5, 0xB9, 0xBA, 0xBC, 0xBD, 0xBE] \<or>
                 0xC0 \<le> c \<and> c \<le> 0xD6 \<or> 0xD8 \<le> c \<and> c \<le> 0xF6 \<or>
                 0xF8 \<le> c \<and> c \<le> 0xFF),
      int_max_str_digits = 4300\<rparr>"

text \<open>
  The first pattern of a list, in its order, that matches a text, with the match
  \<^verbatim>\<open>re.search\<close> finds for it; each pattern comes with its flag
  \<^verbatim>\<open>re.IGNORECASE\<close>.
\<close>

fun first_match :: "runtime \<Rightarrow> (bool \<times> regex) list \<Rightarrow> ustring \<Rightarrow> mstate option" where
  "first_match rt [] t = None"
| "first_match rt ((ic, r) # ps) t =
     (case re_search rt ic r t of Some m \<Rightarrow> Some m | None \<Rightarrow> first_match rt ps t)"

text \<open>
  The percentage patterns in the order of the specification: the primary pattern,
  matched as written, and the three fallback patterns, matched ignoring case. The
  recommendation patterns are all matched ignoring case.
\<close>

definition percentage_patterns :: "(bool \<times> regex) list" where
  "percentage_patterns = (False, match_percentage_pattern) # map (Pair True) alt_patterns"

definition labelled_recommendation_patterns :: "(bool \<times> regex) list" where
  "labelled_recommendation_patterns = map (Pair True) recommendation_patterns"

text \<open>A text is a given word, the case of the letters ignored.\<close>

definition same_word :: "ustring \<Rightarrow> string \<Rightarrow> bool" where
  "same_word w a = list_all2 (\<lambda>c x. c \<in> set (ci_class x)) w a"

text \<open>
  The standalone word ``accept'': an occurrence of the six letters, in either
  case, with no word character directly before or after it.
\<close>

definition standalone_accept :: "runtime \<Rightarrow> ustring \<Rightarrow> bool" where
  "standalone_accept rt t =
     (\<exists>pre w post. t = pre @ w @ post \<and> same_word w ''accept'' \<and>
        (pre = [] \<or> \<not> is_word rt (last pre)) \<and> (post = [] \<or> \<not> is_word rt (hd post)))"

text \<open>
  A number, as \<^verbatim>\<open>(\d+)\<close> captures it, and a recommendation token, as the
  recommendation patterns capture it ignoring case. A number is within the limit
  when \<^verbatim>\<open>int\<close> converts it.
\<close>

definition is_number :: "runtime \<Rightarrow> ustring \<Rightarrow> bool" where
  "is_number rt ds = (ds \<noteq> [] \<and> list_all (is_digit rt) ds)"

definition within_digit_limit :: "runtime \<Rightarrow> ustring \<Rightarrow> bool" where
  "within_digit_limit rt ds = (\<not> exceeds_digit_limit rt ds)"

definition is_token :: "ustring \<Rightarrow> bool" where
  "is_token g = (same_word g ''accept'' \<or> same_word g ''reject'')"

text \<open>A pattern matches at position \<open>i\<close> of a text: a match starts there.\<close>

definition prev_char :: "ustring \<Rightarrow> nat \<Rightarrow> nat option" where
  "prev_char t i = (if i = 0 then None else Some (t ! (i - 1)))"

definition matches_at :: "runtime \<Rightarrow> bool \<Rightarrow> regex \<Rightarrow> ustring \<Rightarrow> nat \<Rightarrow> bool" where
  "matches_at rt ic r t i = (ends rt ic r (prev_char t i, drop i t, None) \<noteq> [])"

text \<open>A word occurs in a text, the case of the letters ignored.\<close>

fun occurs_ic :: "string \<Rightarrow> ustring \<Rightarrow> bool" where
  "occurs_ic w [] = (w = [])"
| "occurs_ic w (c # cs) = (same_word (take (length w) (c # cs)) w \<or> occurs_ic w cs)"

subsection \<open>The recommendation, in the words of the specification\<close>

text \<open>
  The label ``Recommendation'' immediately or loosely followed by a token, all of
  it with the case of the letters ignored. A text begins with a word: what follows
  the word. A text begins with one of two tokens: the token, as the text has it.
\<close>

definition after_word :: "string \<Rightarrow> ustring \<Rightarrow> ustring option" where
  "after_word w cs =
     (if same_word (take (length w) cs) w then Some (drop (length w) cs) else None)"

definition token_at :: "string \<Rightarrow> string \<Rightarrow> ustring \<Rightarrow> ustring option" where
  "token_at w1 w2 cs =
     (if same_word (take (length w1) cs) w1 then Some (take (length w1) cs)
      else if same_word (take (length w2) cs) w2 then Some (take (length w2) cs)
      else None)"

text \<open>
  Immediately followed: after the label come a colon or none, any white space, and
  then the token.
\<close>

definition drop_colon :: "ustring \<Rightarrow> ustring" where
  "drop_colon cs = (case cs of [] \<Rightarrow> [] | c # cs' \<Rightarrow> if c = 0x3A then cs' else c # cs')"

definition immediately_followed :: "runtime \<Rightarrow> string \<Rightarrow> string \<Rightarrow> ustring \<Rightarrow> ustring option" where
  "immediately_followed rt w1 w2 cs =
     (case after_word ''Recommendation'' cs of
        None \<Rightarrow> None
      | Some rest \<Rightarrow> token_at w1 w2 (dropWhile (is_space rt) (drop_colon rest)))"

text \<open>
  Loosely followed: the token is the first one after the label, on the line of the
  label.
\<close>

fun first_token_on_line :: "string \<Rightarrow> string \<Rightarrow> ustring \<Rightarrow> ustring option" where
  "first_token_on_line w1 w2 [] = None"
| "first_token_on_line w1 w2 (c # cs) =
     (case token_at w1 w2 (c # cs) of
        Some g \<Rightarrow> Some g
      | None \<Rightarrow> if c = 0x0A then None else first_token_on_line w1 w2 cs)"

definition loosely_followed :: "string \<Rightarrow> string \<Rightarrow> ustring \<Rightarrow> ustring option" where
  "loosely_followed w1 w2 cs =
     (case after_word ''Recommendation'' cs of
        None \<Rightarrow> None
      | Some rest \<Rightarrow> first_token_on_line w1 w2 rest)"

text \<open>
  The four variants in their order, the leftmost place of a text at which a variant
  applies, and the first variant that applies somewhere.
\<close>

definition recommendation_variants :: "runtime \<Rightarrow> (ustring \<Rightarrow> ustring option) list" where
  "recommendation_variants rt =
     [immediately_followed rt ''ACCEPT'' ''REJECT'',
      immediately_followed rt ''Accept'' ''Reject'',
      loosely_followed ''ACCEPT'' ''REJECT'',
      loosely_followed ''Accept'' ''Reject'']"

fun leftmost :: "(ustring \<Rightarrow> ustring option) \<Rightarrow> ustring \<Rightarrow> ustring option" where
  "leftmost f [] = f []"
| "leftmost f (c # cs) = (case f (c # cs) of Some g \<Rightarrow> Some g | None \<Rightarrow> leftmost f cs)"

fun first_variant :: "(ustring \<Rightarrow> ustring option) list \<Rightarrow> ustring \<Rightarrow> ustring option" where
  "first_variant [] t = None"
| "first_variant (f # fs) t =
     (case leftmost f t of Some g \<Rightarrow> Some g | None \<Rightarrow> first_variant fs t)"

text \<open>
  The recommendation of the specification: the token of the first variant that
  applies, in capitals; when none applies, \<open>ACCEPT\<close> if the standalone word
  ``accept'' occurs in the text, and \<open>REJECT\<close> if it does not.
\<close>

definition spec_recommendation :: "runtime \<Rightarrow> ustring \<Rightarrow> ustring" where
  "spec_recommendation rt t =
     (case first_variant (recommendation_variants rt) t of
        Some g \<Rightarrow> map upper g
      | None \<Rightarrow> if standalone_accept rt t then ustr ''ACCEPT'' else ustr ''REJECT'')"

subsection \<open>Runs and examples\<close>

text \<open>What a run from world \<open>w\<close> to world \<open>w'\<close> added to the trace.\<close>

definition new_events :: "world \<Rightarrow> world \<Rightarrow> event list" where
  "new_events w w' = drop (length (trace w)) (trace w')"

text \<open>The messages composed in a stretch of the trace, in their order.\<close>

fun composed_messages :: "event list \<Rightarrow> (string \<times> string) list" where
  "composed_messages [] = []"
| "composed_messages (Composed subject body # es) = (subject, body) # composed_messages es"
| "composed_messages (SendCall recipient subject body # es) = composed_messages es"
| "composed_messages (Delivered recipient subject body # es) = composed_messages es"

text \<open>
  Concrete surroundings for the examples: an upload, a world with no temporary
  directory and an empty trace, and an environment given by the outcome of
  \<^verbatim>\<open>PdfReader\<close>, the answer of the model and the outcome of the SMTP session, on
  the interpreter of the examples.
\<close>

definition cv_upload :: uploaded_file where
  "cv_upload = \<lparr>upload_name = ''cv.pdf'', upload_buffer = [37, 80, 68, 70]\<rparr>"

definition world0 :: world where
  "world0 = \<lparr>tmp_next = 0, tmp_dirs = [], trace = []\<rparr>"

definition env_of :: "exn + (exn + string) list \<Rightarrow> exn + llm_response \<Rightarrow> exn option \<Rightarrow> env" where
  "env_of pdf answer smtp =
     \<lparr>pdf_reader = (\<lambda>name buffer. pdf),
      chain_invoke = (\<lambda>cv_text job_description. answer),
      smtp_session = (\<lambda>recipient subject body. smtp),
      interpreter = latin1_runtime\<rparr>"

definition good_pdf :: "exn + (exn + string) list" where
  "good_pdf = Inr [Inr ''Python, SQL, '', Inr ''5 years experience'']"

definition bad_pdf :: "exn + (exn + string) list" where
  "bad_pdf = Inl (Exn ''PdfReadError'' ''EOF marker not found'')"

definition relay_down :: "exn option" where
  "relay_down = Some (Exn ''ConnectionRefusedError'' ''[Errno 111] Connection refused'')"

section \<open>Evaluation of the examples\<close>

lemmas parse_eval =
  parse_response_def parse_percentage_def parse_recommendation_def re_search_def
  match_percentage_pattern_def alt_patterns_def recommendation_patterns_def
  accept_word_pattern_def int_group1_def upper_group1_def group1_def py_int_def
  exceeds_digit_limit_def digits_value_def digit_val_def is_digit_def is_space_def
  is_word_def at_boundary_def ci_class_def upper_def ustr_def latin1_runtime_def
  ascii_decimal_def ascii_whitespace_def ascii_alnum_def

lemmas world_eval =
  env_of_def world0_def cv_upload_def good_pdf_def bad_pdf_def relay_down_def
  pdf_loader_def analyz_match_def send_email_def

section \<open>The Orchestrator, path by path\<close>

lemma pdf_loader_trace: "pdf_loader ev w f = (res, w1) \<Longrightarrow> trace w1 = trace w"
  by (auto simp: pdf_loader_def Let_def split: sum.splits)

lemma process_application_notified:
  assumes "pdf_loader ev w cv_file = (Inr cv_text, w1)"
    and "analyz_match ev cv_text job_description = Inr (analysis_text, match_percentage, recommendation)"
    and "analysis_text \<noteq> []"
    and "is_match = (match_threshold \<le> match_percentage \<or> recommendation = ustr ''ACCEPT'')"
    and "email_content applicant_name job_title is_match = (email_subject, email_body)"
    and "send_email ev (w1\<lparr>trace := trace w1 @ [Composed email_subject email_body]\<rparr>)
           applicant_email email_subject email_body = ((email_success, email_message), w3)"
  shows "process_application ev w cv_file applicant_name applicant_email job_title
           job_description match_threshold =
     (Inr [(''success'', PBool True),
           (''applicant_name'', PStr applicant_name),
           (''job_title'', PStr job_title),
           (''match_percentage'', PInt match_percentage),
           (''recommendation'', PStr (if is_match then ''Accept'' else ''Reject'')),
           (''email_sent'', PBool email_success),
           (''email_message'', PStr email_message),
           (''analysis'', PText analysis_text)], w3)"
  using assms by (simp add: process_application_def Let_def)

lemma process_application_extract_raises:
  "pdf_loader ev w cv_file = (Inl e, w1) \<Longrightarrow>
   process_application ev w cv_file applicant_name applicant_email job_title job_description
     match_threshold = (Inl e, w1)"
  by (simp add: process_application_def)

lemma process_application_evaluate_raises:
  "pdf_loader ev w cv_file = (Inr cv_text, w1) \<Longrightarrow>
   analyz_match ev cv_text job_description = Inl e \<Longrightarrow>
   process_application ev w cv_file applicant_name applicant_email job_title job_description
     match_threshold = (Inl e, w1)"
  by (simp add: process_application_def)

lemma process_application_empty:
  "pdf_loader ev w cv_file = (Inr cv_text, w1) \<Longrightarrow>
   analyz_match ev cv_text job_description = Inr ([], match_percentage, recommendation) \<Longrightarrow>
   process_application ev w cv_file applicant_name applicant_email job_title job_description
     match_threshold =
     (Inr [(''success'', PBool False), (''message'', PStr ''Failed to analyze the CV.'')], w1)"
  by (simp add: process_application_def)

lemma send_email_fails:
  "smtp_session ev recipient_email subject body = Some e \<Longrightarrow>
   send_email ev w recipient_email subject body =
     ((False, ''Failed to send email: '' @ exn_str e),
      w\<lparr>trace := trace w @ [SendCall recipient_email subject body]\<rparr>)"
  by (simp add: send_email_def)

lemma send_email_trace:
  "send_email ev w recipient_email subject body = (res, w') \<Longrightarrow>
   \<exists>rest. trace w' = trace w @ SendCall recipient_email subject body # rest"
  by (auto simp: send_email_def Let_def split: option.splits)

lemma parse_65_reject:
  "parse_response latin1_runtime (ustr ''Match Percentage: 65, Recommendation: REJECT'') =
     Inr (ustr ''Match Percentage: 65, Recommendation: REJECT'', 65, ustr ''REJECT'')"
  by (simp add: parse_eval)

lemma reject_not_accept: "ustr ''REJECT'' \<noteq> ustr ''ACCEPT''"
  by (simp add: ustr_def)

lemma ustr_not_empty: "ustr (c # cs) \<noteq> []"
  by (simp add: ustr_def)

lemma interpreter_env_of: "interpreter (env_of pdf answer smtp) = latin1_runtime"
  by (simp add: env_of_def)

section \<open>The decision\<close>

text \<open>
  C1. Whenever the Orchestrator gets as far as the decision (the text is extracted,
  the evaluation returns a triple with a non-empty response text), the record it
  returns has the recommendation \<open>Accept\<close> if and only if the match percentage is
  at least the threshold or the Evaluator's recommendation is \<open>ACCEPT\<close>, and
  \<open>Reject\<close> otherwise.
\<close>

theorem decision_rule:
  assumes "pdf_loader ev w cv_file = (Inr cv_text, w1)"
    and "analyz_match ev cv_text job_description =
           Inr (analysis_text, match_percentage, recommendation)"
    and "analysis_text \<noteq> []"
  shows "\<exists>r w'. process_application ev w cv_file applicant_name applicant_email job_title
             job_description match_threshold = (Inr r, w') \<and>
           map_of r ''recommendation'' =
             Some (PStr (if match_percentage \<ge> match_threshold \<or> recommendation = ustr ''ACCEPT''
                         then ''Accept'' else ''Reject'')) \<and>
           (map_of r ''recommendation'' = Some (PStr ''Accept'') \<longleftrightarrow>
              match_percentage \<ge> match_threshold \<or> recommendation = ustr ''ACCEPT'')"
proof -
  define is_match
    where "is_match = (match_threshold \<le> match_percentage \<or> recommendation = ustr ''ACCEPT'')"
  obtain email_subject email_body
    where ec: "email_content applicant_name job_title is_match = (email_subject, email_body)"
    by (cases "email_content applicant_name job_title is_match")
  obtain email_success email_message w3
    where se: "send_email ev (w1\<lparr>trace := trace w1 @ [Composed email_subject email_body]\<rparr>)
           applicant_email email_subject email_body = ((email_success, email_message), w3)"
    by (metis surj_pair)
  note pa = process_application_notified [OF assms is_match_def ec se]
  show ?thesis
    unfolding pa is_match_def by simp
qed

theorem decision_rule_witness:
  "\<exists>r w'. process_application
       (env_of good_pdf (Inr (RStr (ustr ''Match Percentage: 65, Recommendation: REJECT''))) None)
       world0 cv_upload ''Ann'' ''ann@example.org'' ''Engineer'' ''Python, SQL, 3+ years'' 70
        = (Inr r, w') \<and>
      map_of r ''recommendation'' = Some (PStr ''Reject'')"
proof -
  have a: "pdf_loader (env_of good_pdf (Inr (RStr (ustr ''Match Percentage: 65, Recommendation: REJECT''))) None)
             world0 cv_upload =
           (Inr ''Python, SQL, 5 years experience'', \<lparr>tmp_next = 1, tmp_dirs = [], trace = []\<rparr>)"
    by (simp add: world_eval)
  have b: "analyz_match (env_of good_pdf (Inr (RStr (ustr ''Match Percentage: 65, Recommendation: REJECT''))) None)
             ''Python, SQL, 5 years experience'' ''Python, SQL, 3+ years'' =
           Inr (ustr ''Match Percentage: 65, Recommendation: REJECT'', 65, ustr ''REJECT'')"
    by (simp add: analyz_match_def env_of_def parse_65_reject)
  have c: "ustr ''Match Percentage: 65, Recommendation: REJECT'' \<noteq> []" by (simp add: ustr_def)
  show ?thesis
    using decision_rule [OF a b c, of "''Ann''" "''ann@example.org''" "''Engineer''" 70]
    by (auto simp: ustr_def)
qed

section \<open>Failures of extraction and evaluation\<close>

text \<open>
  Two submissions on which a step fails: \<^verbatim>\<open>PdfReader\<close> rejects the upload, and the
  call of the model raises. \<^verbatim>\<open>process_application\<close> returns no record; the
  exception leaves it.
\<close>

lemma failure_escapes_example:
  "process_application (env_of bad_pdf (Inr (RStr (ustr ''Match Percentage: 88 Recommendation: ACCEPT''))) None)
     world0 cv_upload ''Ann'' ''ann@example.org'' ''Engineer'' ''Python, SQL, 3+ years'' 70 =
     (Inl (Exn ''PdfReadError'' ''EOF marker not found''),
      \<lparr>tmp_next = 1, tmp_dirs = [0], trace = []\<rparr>) \<and>
   process_application (env_of good_pdf (Inl (Exn ''APIConnectionError'' ''Connection error.'')) None)
     world0 cv_upload ''Ann'' ''ann@example.org'' ''Engineer'' ''Python, SQL, 3+ years'' 70 =
     (Inl (Exn ''APIConnectionError'' ''Connection error.''),
      \<lparr>tmp_next = 1, tmp_dirs = [], trace = []\<rparr>)"
  by (simp add: process_application_def world_eval)

text \<open>
  C2. The code does not return the failure result that the claim asks for.
  \<^verbatim>\<open>process_application\<close> has no handler around \<^verbatim>\<open>pdf_loader\<close> and
  \<^verbatim>\<open>analyz_match\<close>: whenever the extraction of the document or the evaluation by
  the model raises, the exception leaves \<^verbatim>\<open>process_application\<close> and no record
  with \<open>success = False\<close> is returned. The other half of the claim holds: no email
  is composed or sent, the trace of the world is as it was.
\<close>

theorem failure_propagates:
  "(pdf_loader ev w cv_file = (Inl e, w1) \<longrightarrow>
      process_application ev w cv_file applicant_name applicant_email job_title
        job_description match_threshold = (Inl e, w1) \<and> new_events w w1 = []) \<and>
   (pdf_loader ev w cv_file = (Inr cv_text, w1) \<and>
    analyz_match ev cv_text job_description = Inl e \<longrightarrow>
      process_application ev w cv_file applicant_name applicant_email job_title
        job_description match_threshold = (Inl e, w1) \<and> new_events w w1 = [])"
  using pdf_loader_trace [of ev w cv_file _ w1]
  by (auto simp: process_application_extract_raises process_application_evaluate_raises
      new_events_def)

theorem failure_propagates_witness:
  "process_application (env_of bad_pdf (Inr (RStr (ustr ''Match Percentage: 88''))) None)
     world0 cv_upload ''Ann'' ''ann@example.org'' ''Engineer'' ''Python, SQL, 3+ years'' 70 =
     (Inl (Exn ''PdfReadError'' ''EOF marker not found''),
      \<lparr>tmp_next = 1, tmp_dirs = [0], trace = []\<rparr>) \<and>
   new_events world0 \<lparr>tmp_next = 1, tmp_dirs = [0], trace = []\<rparr> = []"
proof -
  have a: "pdf_loader (env_of bad_pdf (Inr (RStr (ustr ''Match Percentage: 88''))) None) world0 cv_upload =
      (Inl (Exn ''PdfReadError'' ''EOF marker not found''),
       \<lparr>tmp_next = 1, tmp_dirs = [0], trace = []\<rparr>)"
    by (simp add: world_eval)
  show ?thesis
    using failure_propagates [of "env_of bad_pdf (Inr (RStr (ustr ''Match Percentage: 88''))) None"
        world0 cv_upload "Exn ''PdfReadError'' ''EOF marker not found''"
        "\<lparr>tmp_next = 1, tmp_dirs = [0], trace = []\<rparr>"
        "''Ann''" "''ann@example.org''" "''Engineer''" "''Python, SQL, 3+ years''" 70] a
    by simp
qed

section \<open>The temporary directory\<close>

text \<open>
  C6. On an upload that \<^verbatim>\<open>PdfReader\<close> rejects, \<^verbatim>\<open>pdf_loader\<close> leaves by the
  exception with the temporary directory it created (number 0) still there; on an
  upload that is read, the directory is gone when the function returns.
\<close>

theorem tempdir_left_on_failure:
  "pdf_loader (env_of bad_pdf (Inr (RStr [])) None) world0 cv_upload =
     (Inl (Exn ''PdfReadError'' ''EOF marker not found''),
      \<lparr>tmp_next = 1, tmp_dirs = [0], trace = []\<rparr>) \<and>
   pdf_loader (env_of good_pdf (Inr (RStr [])) None) world0 cv_upload =
     (Inr ''Python, SQL, 5 years experience'', \<lparr>tmp_next = 1, tmp_dirs = [], trace = []\<rparr>)"
  by (simp add: world_eval)

section \<open>Failures of the notification\<close>

text \<open>
  C3. When the SMTP session raises an exception \<open>e\<close>, \<^verbatim>\<open>send_email\<close> returns the pair
  of \<open>False\<close> and the failure message; and when this happens in a submission that
  reached the notification, the Orchestrator returns a record with
  \<open>success = True\<close>, \<open>email_sent = False\<close> and the failure message, which is not
  empty.
\<close>

theorem notifier_failure_recorded:
  "(smtp_session ev recipient_email subject body = Some e \<longrightarrow>
      fst (send_email ev w recipient_email subject body) =
        (False, ''Failed to send email: '' @ exn_str e)) \<and>
   (pdf_loader ev w cv_file = (Inr cv_text, w1) \<and>
    analyz_match ev cv_text job_description =
      Inr (analysis_text, match_percentage, recommendation) \<and>
    analysis_text \<noteq> [] \<and>
    email_content applicant_name job_title
      (match_percentage \<ge> match_threshold \<or> recommendation = ustr ''ACCEPT'') =
      (email_subject, email_body) \<and>
    smtp_session ev applicant_email email_subject email_body = Some e \<longrightarrow>
      (\<exists>r w'. process_application ev w cv_file applicant_name applicant_email job_title
                 job_description match_threshold = (Inr r, w') \<and>
         map_of r ''success'' = Some (PBool True) \<and>
         map_of r ''email_sent'' = Some (PBool False) \<and>
         map_of r ''email_message'' = Some (PStr (''Failed to send email: '' @ exn_str e)) \<and>
         ''Failed to send email: '' @ exn_str e \<noteq> [] \<and>
         new_events w w' = [Composed email_subject email_body,
                            SendCall applicant_email email_subject email_body]))"
proof (intro conjI impI)
  assume "smtp_session ev recipient_email subject body = Some e"
  then show "fst (send_email ev w recipient_email subject body) =
      (False, ''Failed to send email: '' @ exn_str e)"
    by (simp add: send_email_fails)
next
  assume h: "pdf_loader ev w cv_file = (Inr cv_text, w1) \<and>
    analyz_match ev cv_text job_description =
      Inr (analysis_text, match_percentage, recommendation) \<and>
    analysis_text \<noteq> [] \<and>
    email_content applicant_name job_title
      (match_percentage \<ge> match_threshold \<or> recommendation = ustr ''ACCEPT'') =
      (email_subject, email_body) \<and>
    smtp_session ev applicant_email email_subject email_body = Some e"
  let ?w2 = "w1\<lparr>trace := trace w1 @ [Composed email_subject email_body]\<rparr>"
  from h have se: "send_email ev ?w2 applicant_email email_subject email_body =
      ((False, ''Failed to send email: '' @ exn_str e),
       ?w2\<lparr>trace := trace ?w2 @ [SendCall applicant_email email_subject email_body]\<rparr>)"
    by (simp add: send_email_fails)
  from h have tr: "trace w1 = trace w"
    using pdf_loader_trace by blast
  have pa: "process_application ev w cv_file applicant_name applicant_email job_title
      job_description match_threshold =
     (Inr [(''success'', PBool True),
           (''applicant_name'', PStr applicant_name),
           (''job_title'', PStr job_title),
           (''match_percentage'', PInt match_percentage),
           (''recommendation'', PStr (if (match_threshold \<le> match_percentage \<or> recommendation = ustr ''ACCEPT'') then ''Accept'' else ''Reject'')),
           (''email_sent'', PBool False),
           (''email_message'', PStr (''Failed to send email: '' @ exn_str e)),
           (''analysis'', PText analysis_text)],
      ?w2\<lparr>trace := trace ?w2 @ [SendCall applicant_email email_subject email_body]\<rparr>)"
    using h process_application_notified [OF _ _ _ refl _ se] by blast
  show "\<exists>r w'. process_application ev w cv_file applicant_name applicant_email job_title
                 job_description match_threshold = (Inr r, w') \<and>
         map_of r ''success'' = Some (PBool True) \<and>
         map_of r ''email_sent'' = Some (PBool False) \<and>
         map_of r ''email_message'' = Some (PStr (''Failed to send email: '' @ exn_str e)) \<and>
         ''Failed to send email: '' @ exn_str e \<noteq> [] \<and>
         new_events w w' = [Composed email_subject email_body,
                            SendCall applicant_email email_subject email_body]"
    unfolding pa by (simp add: new_events_def tr)
qed

theorem notifier_failure_recorded_witness:
  "fst (send_email (env_of good_pdf (Inr (RStr (ustr ''Match Percentage: 65, Recommendation: REJECT''))) relay_down)
          world0 ''ann@example.org'' ''Hello'' ''Dear Ann'') =
     (False, ''Failed to send email: [Errno 111] Connection refused'') \<and>
   (\<exists>r w'. process_application
       (env_of good_pdf (Inr (RStr (ustr ''Match Percentage: 65, Recommendation: REJECT''))) relay_down)
       world0 cv_upload ''Ann'' ''ann@example.org'' ''Engineer'' ''Python, SQL, 3+ years'' 70
        = (Inr r, w') \<and>
      map_of r ''success'' = Some (PBool True) \<and>
      map_of r ''email_sent'' = Some (PBool False) \<and>
      map_of r ''email_message'' =
        Some (PStr ''Failed to send email: [Errno 111] Connection refused''))"
proof -
  let ?ev = "env_of good_pdf (Inr (RStr (ustr ''Match Percentage: 65, Recommendation: REJECT''))) relay_down"
  let ?e = "Exn ''ConnectionRefusedError'' ''[Errno 111] Connection refused''"
  have a: "pdf_loader ?ev world0 cv_upload =
           (Inr ''Python, SQL, 5 years experience'', \<lparr>tmp_next = 1, tmp_dirs = [], trace = []\<rparr>)"
    by (simp add: world_eval)
  have b: "analyz_match ?ev ''Python, SQL, 5 years experience'' ''Python, SQL, 3+ years'' =
           Inr (ustr ''Match Percentage: 65, Recommendation: REJECT'', 65, ustr ''REJECT'')"
    by (simp add: analyz_match_def env_of_def parse_65_reject)
  have c: "ustr ''Match Percentage: 65, Recommendation: REJECT'' \<noteq> []" by (simp add: ustr_def)
  have d: "email_content ''Ann'' ''Engineer'' ((70::int) \<le> 65 \<or> ustr ''REJECT'' = ustr ''ACCEPT'') =
      (fst (email_content ''Ann'' ''Engineer'' False), snd (email_content ''Ann'' ''Engineer'' False))"
    by (simp add: ustr_def)
  have s: "\<And>r sb b. smtp_session ?ev r sb b = Some ?e"
    by (simp add: env_of_def relay_down_def)
  show ?thesis
    using notifier_failure_recorded [of ?ev "''ann@example.org''" "''Hello''" "''Dear Ann''" ?e
        world0 cv_upload "''Python, SQL, 5 years experience''"
        "\<lparr>tmp_next = 1, tmp_dirs = [], trace = []\<rparr>" "''Python, SQL, 3+ years''"
        "ustr ''Match Percentage: 65, Recommendation: REJECT''" 65 "ustr ''REJECT''"
        "''Ann''" "''Engineer''" 70
        "fst (email_content ''Ann'' ''Engineer'' False)"
        "snd (email_content ''Ann'' ''Engineer'' False)" "''ann@example.org''"]
      a b c d s
    by (auto simp: ustr_def)
qed

section \<open>The failure result\<close>

text \<open>
  C10. A run of the Orchestrator that returns a record returns \<open>success = False\<close>
  exactly when the response text of the model is empty; that record has the two
  keys \<open>success\<close> and \<open>message\<close> and no other, and the run has composed and sent
  no email.
\<close>

theorem failure_result_only_on_empty_response:
  assumes "process_application ev w cv_file applicant_name applicant_email job_title
             job_description match_threshold = (Inr r, w')"
  shows "(map_of r ''success'' = Some (PBool False) \<longleftrightarrow>
            (\<exists>cv_text w1 response.
               pdf_loader ev w cv_file = (Inr cv_text, w1) \<and>
               chain_invoke ev cv_text job_description = Inr response \<and>
               response_text_of response = [])) \<and>
         (map_of r ''success'' = Some (PBool False) \<longrightarrow>
            map fst r = [''success'', ''message''] \<and>
            r = [(''success'', PBool False), (''message'', PStr ''Failed to analyze the CV.'')] \<and>
            new_events w w' = [])"
proof -
  obtain res w1 where pl: "pdf_loader ev w cv_file = (res, w1)"
    by (cases "pdf_loader ev w cv_file")
  from assms pl obtain cv_text where res: "res = Inr cv_text"
    by (cases res) (auto simp: process_application_def)
  from assms pl res obtain analysis_text match_percentage recommendation
    where am: "analyz_match ev cv_text job_description =
                 Inr (analysis_text, match_percentage, recommendation)"
    by (cases "analyz_match ev cv_text job_description")
      (auto simp: process_application_def)
  from am obtain response where ci: "chain_invoke ev cv_text job_description = Inr response"
    and parsed: "parse_response (interpreter ev) (response_text_of response) =
               Inr (analysis_text, match_percentage, recommendation)"
    by (auto simp: analyz_match_def split: sum.splits)
  from parsed have same_text: "analysis_text = response_text_of response"
    by (auto simp: parse_response_def split: sum.splits)
  have tr: "trace w1 = trace w"
    using pl pdf_loader_trace by blast
  show ?thesis
  proof (cases "analysis_text = []")
    case True
    with pl res am have "process_application ev w cv_file applicant_name applicant_email
        job_title job_description match_threshold =
        (Inr [(''success'', PBool False), (''message'', PStr ''Failed to analyze the CV.'')], w1)"
      by (simp add: process_application_empty)
    with assms have "r = [(''success'', PBool False), (''message'', PStr ''Failed to analyze the CV.'')]"
      and "w' = w1" by simp_all
    with True pl res ci same_text tr show ?thesis
      by (auto simp: new_events_def)
  next
    case False
    obtain email_subject email_body where ec: "email_content applicant_name job_title
        (match_threshold \<le> match_percentage \<or> recommendation = ustr ''ACCEPT'') =
        (email_subject, email_body)"
      by (metis surj_pair)
    obtain email_success email_message w3
      where se: "send_email ev (w1\<lparr>trace := trace w1 @ [Composed email_subject email_body]\<rparr>)
           applicant_email email_subject email_body = ((email_success, email_message), w3)"
      by (metis surj_pair)
    have "map_of r ''success'' = Some (PBool True)"
      using assms process_application_notified [OF pl [unfolded res] am False refl ec se]
      by auto
    moreover have "\<not> (\<exists>cv_text' w1' response'.
               pdf_loader ev w cv_file = (Inr cv_text', w1') \<and>
               chain_invoke ev cv_text' job_description = Inr response' \<and>
               response_text_of response' = [])"
      using pl res ci same_text False by auto
    ultimately show ?thesis by simp
  qed
qed

theorem failure_result_only_on_empty_response_witness:
  "process_application (env_of good_pdf (Inr (RStr [])) None)
       world0 cv_upload ''Ann'' ''ann@example.org'' ''Engineer'' ''Python, SQL, 3+ years'' 70 =
     (Inr [(''success'', PBool False), (''message'', PStr ''Failed to analyze the CV.'')],
      \<lparr>tmp_next = 1, tmp_dirs = [], trace = []\<rparr>) \<and>
   map fst [(''success'', PBool False), (''message'', PStr ''Failed to analyze the CV.'')] =
     [''success'', ''message''] \<and>
   new_events world0 \<lparr>tmp_next = 1, tmp_dirs = [], trace = []\<rparr> = []"
proof -
  have a: "process_application (env_of good_pdf (Inr (RStr [])) None)
       world0 cv_upload ''Ann'' ''ann@example.org'' ''Engineer'' ''Python, SQL, 3+ years'' 70 =
     (Inr [(''success'', PBool False), (''message'', PStr ''Failed to analyze the CV.'')],
      \<lparr>tmp_next = 1, tmp_dirs = [], trace = []\<rparr>)"
    by (simp add: process_application_def world_eval parse_eval)
  show ?thesis
    using failure_result_only_on_empty_response [OF a] a
    by simp
qed

section \<open>Facts about characters and numbers\<close>

lemma ok_decimal: "runtime_ok rt \<Longrightarrow> c < 128 \<Longrightarrow> decimal rt c = ascii_decimal c"
  by (simp add: runtime_ok_def)

lemma ok_whitespace: "runtime_ok rt \<Longrightarrow> c < 128 \<Longrightarrow> whitespace rt c = ascii_whitespace c"
  by (simp add: runtime_ok_def)

lemma ok_alnum: "runtime_ok rt \<Longrightarrow> c < 128 \<Longrightarrow> alnum rt c = ascii_alnum c"
  by (simp add: runtime_ok_def)

lemma space_not_digit: "runtime_ok rt \<Longrightarrow> is_space rt c \<Longrightarrow> \<not> is_digit rt c"
  by (simp add: runtime_ok_def is_space_def is_digit_def)

lemma runtime_ok_latin1: "runtime_ok latin1_runtime"
  by (simp add: runtime_ok_def latin1_runtime_def ascii_decimal_def ascii_whitespace_def)

lemma digit_val_nonneg: "0 \<le> digit_val rt c"
  by (simp add: digit_val_def split: option.splits)

lemma foldl_digits_nonneg:
  "0 \<le> a \<Longrightarrow> 0 \<le> foldl (\<lambda>n c. 10 * n + digit_val rt c) a s"
proof (induction s arbitrary: a)
  case Nil
  then show ?case by simp
next
  case (Cons c s)
  from Cons.prems have "0 \<le> 10 * a + digit_val rt c"
    using digit_val_nonneg [of rt c] by simp
  with Cons show ?case by simp
qed

lemma digits_value_nonneg: "0 \<le> digits_value rt s"
  unfolding digits_value_def by (rule foldl_digits_nonneg) simp

lemma py_int_number:
  "is_number rt ds \<Longrightarrow> within_digit_limit rt ds \<Longrightarrow> py_int rt ds = Inr (digits_value rt ds)"
  by (simp add: py_int_def is_number_def within_digit_limit_def)

lemma py_int_exceeds:
  "is_number rt ds \<Longrightarrow> exceeds_digit_limit rt ds \<Longrightarrow>
   py_int rt ds =
     Inl (Exn ''ValueError''
       (''Exceeds the limit ('' @ show_nat (int_max_str_digits rt) @
        '' digits) for integer string conversion: value has '' @
        show_nat (length ds) @
        '' digits; use sys.set_int_max_str_digits() to increase the limit''))"
  by (simp add: py_int_def is_number_def)

lemma atom_ok_Digit: "atom_ok rt ic Digit = is_digit rt"
  by (rule ext) simp

lemma atom_ok_Space: "atom_ok rt ic Space = is_space rt"
  by (rule ext) simp

section \<open>Where a match can end\<close>

lemma greedy_set:
  "(p', cs', g') \<in> set (greedy P p cs g) \<Longrightarrow> g' = g \<and> (\<exists>xs. cs = xs @ cs' \<and> list_all P xs)"
proof (induction cs arbitrary: p)
  case Nil
  then show ?case by simp
next
  case (Cons c cs)
  show ?case
  proof (cases "P c \<and> (p', cs', g') \<in> set (greedy P (Some c) cs g)")
    case True
    with Cons.IH [of "Some c"] obtain xs where "g' = g" "cs = xs @ cs'" "list_all P xs"
      by blast
    with True have "c # cs = (c # xs) @ cs' \<and> list_all P (c # xs)" by simp
    with \<open>g' = g\<close> show ?thesis by blast
  next
    case False
    with Cons.prems have "(p', cs', g') = (p, c # cs, g)"
      by (auto split: if_splits)
    then show ?thesis by simp
  qed
qed

lemma lazy_set:
  "(p', cs', g') \<in> set (lazy P p cs g) \<Longrightarrow> g' = g \<and> (\<exists>xs. cs = xs @ cs' \<and> list_all P xs)"
proof (induction cs arbitrary: p)
  case Nil
  then show ?case by simp
next
  case (Cons c cs)
  show ?case
  proof (cases "P c \<and> (p', cs', g') \<in> set (lazy P (Some c) cs g)")
    case True
    with Cons.IH [of "Some c"] obtain xs where "g' = g" "cs = xs @ cs'" "list_all P xs"
      by blast
    with True have "c # cs = (c # xs) @ cs' \<and> list_all P (c # xs)" by simp
    with \<open>g' = g\<close> show ?thesis by blast
  next
    case False
    with Cons.prems have "(p', cs', g') = (p, c # cs, g)"
      by (auto split: if_splits)
    then show ?thesis by simp
  qed
qed

lemma step_set:
  "(p', cs', g') \<in> set (step rt ic a (p, cs, g)) \<Longrightarrow>
     g' = g \<and> (\<exists>c. cs = c # cs' \<and> atom_ok rt ic a c \<and> p' = Some c)"
  by (cases cs) (auto split: if_splits)

lemma search_from_Some:
  "search_from rt ic r p cs = Some m \<Longrightarrow> \<exists>p' cs'. m \<in> set (ends rt ic r (p', cs', None))"
proof (induction cs arbitrary: p)
  case Nil
  then have "m \<in> set (ends rt ic r (p, [], None))"
    by (auto split: list.splits)
  then show ?case by blast
next
  case (Cons c cs)
  show ?case
  proof (cases "ends rt ic r (p, c # cs, None)")
    case Nil
    with Cons show ?thesis by simp
  next
    case (Cons e es)
    with Cons.prems have "m \<in> set (ends rt ic r (p, c # cs, None))" by simp
    then show ?thesis by blast
  qed
qed

lemma re_search_Some:
  "re_search rt ic r t = Some m \<Longrightarrow> \<exists>s. m \<in> set (ends rt ic r s)"
  unfolding re_search_def using search_from_Some by blast

lemma ends_Seq_tail:
  assumes "m \<in> set (ends rt ic (Seq r1 r2) s)"
    and "\<And>n. m \<in> set (ends rt ic r2 n) \<Longrightarrow> Q"
  shows Q
  using assms by auto

lemma group_plus_digit:
  assumes "m \<in> set (ends rt ic (Group (Plus Digit)) s)"
  shows "\<exists>ds. group1 m = Some ds \<and> is_number rt ds"
proof -
  obtain p cs g where s: "s = (p, cs, g)" by (cases s)
  from assms s obtain n where n: "n \<in> set (ends rt ic (Plus Digit) (p, cs, g))"
    and m: "m = capture cs n"
    by auto
  obtain p' cs' g' where n': "n = (p', cs', g')" by (cases n)
  from n obtain k where k: "k \<in> set (step rt ic Digit (p, cs, g))"
    and nk: "n \<in> set (star rt ic Digit k)"
    by auto
  obtain pk ck gk where k': "k = (pk, ck, gk)" by (cases k)
  from k k' obtain c where c: "cs = c # ck" "is_digit rt c"
    using step_set [of pk ck gk rt ic Digit p cs g] by auto
  from nk k' n' obtain xs where xs: "ck = xs @ cs'" "list_all (is_digit rt) xs"
    using greedy_set [of p' cs' g' "is_digit rt" pk ck gk] by (auto simp: atom_ok_Digit)
  have "take (length cs - length cs') cs = c # xs"
    using c xs by simp
  with m n' c xs show ?thesis by (simp add: is_number_def group1_def)
qed

lemma group_plus_digit_then_atom:
  assumes "m \<in> set (ends rt ic (Seq (Group (Plus Digit)) (Atom a)) s)"
  shows "\<exists>ds. group1 m = Some ds \<and> is_number rt ds"
proof -
  from assms obtain n where n: "n \<in> set (ends rt ic (Group (Plus Digit)) s)"
    and m: "m \<in> set (step rt ic a n)"
    by auto
  obtain pn cn gn where n': "n = (pn, cn, gn)" by (cases n)
  obtain pm cm gm where m': "m = (pm, cm, gm)" by (cases m)
  from m n' m' have "gm = gn"
    using step_set [of pm cm gm rt ic a pn cn gn] by simp
  with group_plus_digit [OF n] n' m' show ?thesis
    by (simp add: group1_def)
qed

lemma percentage_pattern_number:
  assumes "(ic, r) \<in> set percentage_patterns" and "m \<in> set (ends rt ic r s)"
  shows "\<exists>ds. group1 m = Some ds \<and> is_number rt ds"
proof -
  from assms(1) consider
      "r = Seq (lits ''Match Percentage'')
             (Seq (Opt (Lit CHR '':'')) (Seq (Star Space) (Group (Plus Digit))))"
    | "r = Seq (lits ''Match Percentage'')
             (Seq (Opt (Lit CHR '':''))
                (Seq (Star Space) (Seq (Group (Plus Digit)) (Atom (Lit CHR ''%'')))))"
    | "r = Seq (lits ''Match Percentage'') (Seq (LazyStar Dot) (Group (Plus Digit)))"
    | "r = Seq (lits ''match'')
             (Seq (LazyStar Dot) (Seq (Group (Plus Digit)) (Atom (Lit CHR ''%''))))"
    unfolding percentage_patterns_def match_percentage_pattern_def alt_patterns_def
    by auto
  then show ?thesis
  proof cases
    case 1
    from assms(2) [unfolded 1] obtain n1
      where "m \<in> set (ends rt ic (Seq (Opt (Lit CHR '':'')) (Seq (Star Space) (Group (Plus Digit)))) n1)"
      by (rule ends_Seq_tail)
    then obtain n2 where "m \<in> set (ends rt ic (Seq (Star Space) (Group (Plus Digit))) n2)"
      by (rule ends_Seq_tail)
    then obtain n3 where "m \<in> set (ends rt ic (Group (Plus Digit)) n3)"
      by (rule ends_Seq_tail)
    then show ?thesis by (rule group_plus_digit)
  next
    case 2
    from assms(2) [unfolded 2] obtain n1
      where "m \<in> set (ends rt ic (Seq (Opt (Lit CHR '':''))
                (Seq (Star Space) (Seq (Group (Plus Digit)) (Atom (Lit CHR ''%''))))) n1)"
      by (rule ends_Seq_tail)
    then obtain n2
      where "m \<in> set (ends rt ic (Seq (Star Space) (Seq (Group (Plus Digit)) (Atom (Lit CHR ''%'')))) n2)"
      by (rule ends_Seq_tail)
    then obtain n3 where "m \<in> set (ends rt ic (Seq (Group (Plus Digit)) (Atom (Lit CHR ''%''))) n3)"
      by (rule ends_Seq_tail)
    then show ?thesis by (rule group_plus_digit_then_atom)
  next
    case 3
    from assms(2) [unfolded 3] obtain n1
      where "m \<in> set (ends rt ic (Seq (LazyStar Dot) (Group (Plus Digit))) n1)"
      by (rule ends_Seq_tail)
    then obtain n2 where "m \<in> set (ends rt ic (Group (Plus Digit)) n2)"
      by (rule ends_Seq_tail)
    then show ?thesis by (rule group_plus_digit)
  next
    case 4
    from assms(2) [unfolded 4] obtain n1
      where "m \<in> set (ends rt ic (Seq (LazyStar Dot) (Seq (Group (Plus Digit)) (Atom (Lit CHR ''%'')))) n1)"
      by (rule ends_Seq_tail)
    then obtain n2 where "m \<in> set (ends rt ic (Seq (Group (Plus Digit)) (Atom (Lit CHR ''%''))) n2)"
      by (rule ends_Seq_tail)
    then show ?thesis by (rule group_plus_digit_then_atom)
  qed
qed

lemma first_match_Some:
  "first_match rt ps t = Some m \<Longrightarrow> \<exists>ic r s. (ic, r) \<in> set ps \<and> m \<in> set (ends rt ic r s)"
proof (induction ps)
  case Nil
  then show ?case by simp
next
  case (Cons a ps)
  obtain ic r where a: "a = (ic, r)" by (cases a)
  show ?case
  proof (cases "re_search rt ic r t")
    case None
    with Cons.prems a have "first_match rt ps t = Some m" by simp
    from Cons.IH [OF this] obtain ic' r' s
      where "(ic', r') \<in> set ps" "m \<in> set (ends rt ic' r' s)" by blast
    then have "(ic', r') \<in> set (a # ps) \<and> m \<in> set (ends rt ic' r' s)" by simp
    then show ?thesis by blast
  next
    case (Some m')
    with Cons.prems a have "re_search rt ic r t = Some m" by simp
    from re_search_Some [OF this] obtain s where "m \<in> set (ends rt ic r s)" by blast
    with a have "(ic, r) \<in> set (a # ps) \<and> m \<in> set (ends rt ic r s)" by simp
    then show ?thesis by blast
  qed
qed

lemma first_percentage_match_number:
  "first_match rt percentage_patterns t = Some m \<Longrightarrow> \<exists>ds. group1 m = Some ds \<and> is_number rt ds"
  using first_match_Some percentage_pattern_number by blast

section \<open>The loops of \<^verbatim>\<open>analyz_match\<close> find the first pattern that matches\<close>

lemma alt_loop_first_match:
  "alt_loop rt ps t =
     (case first_match rt (map (Pair True) ps) t of None \<Rightarrow> Inr 0 | Some m \<Rightarrow> int_group1 rt m)"
  by (induction ps) (auto split: option.splits)

lemma parse_percentage_first_match:
  "parse_percentage rt t =
     (case first_match rt percentage_patterns t of None \<Rightarrow> Inr 0 | Some m \<Rightarrow> int_group1 rt m)"
  by (simp add: parse_percentage_def percentage_patterns_def alt_loop_first_match
      split: option.splits)

lemma rec_loop_first_match:
  "rec_loop rt ps t =
     (case first_match rt (map (Pair True) ps) t of
        None \<Rightarrow> Inr None
      | Some m \<Rightarrow> (case upper_group1 m of Inl e \<Rightarrow> Inl e | Inr u \<Rightarrow> Inr (Some u)))"
  by (induction ps) (auto split: option.splits)

lemma parse_percentage_value:
  "(first_match rt percentage_patterns t = None \<longrightarrow> parse_percentage rt t = Inr 0) \<and>
   (\<forall>m. first_match rt percentage_patterns t = Some m \<longrightarrow>
      (\<exists>ds. group1 m = Some ds \<and> is_number rt ds \<and> parse_percentage rt t = py_int rt ds))"
proof (intro conjI allI impI)
  assume "first_match rt percentage_patterns t = None"
  then show "parse_percentage rt t = Inr 0"
    by (simp add: parse_percentage_first_match)
next
  fix m
  assume m: "first_match rt percentage_patterns t = Some m"
  from first_percentage_match_number [OF m] obtain ds
    where ds: "group1 m = Some ds" "is_number rt ds" by blast
  with m have "parse_percentage rt t = py_int rt ds"
    by (simp add: parse_percentage_first_match int_group1_def)
  with ds show "\<exists>ds. group1 m = Some ds \<and> is_number rt ds \<and> parse_percentage rt t = py_int rt ds"
    by blast
qed

section \<open>Literal words\<close>

lemma ends_lits_set:
  "m \<in> set (ends rt ic (lits w) (p, cs, g)) \<Longrightarrow>
     \<exists>xs. cs = xs @ fst (snd m) \<and> list_all2 (\<lambda>a x. atom_ok rt ic (Lit a) x) w xs \<and>
          snd (snd m) = g \<and> fst m = (if xs = [] then p else Some (last xs))"
proof (induction w arbitrary: p cs)
  case Nil
  then show ?case by simp
next
  case (Cons a w)
  from Cons.prems obtain n where n: "n \<in> set (step rt ic (Lit a) (p, cs, g))"
    and m: "m \<in> set (ends rt ic (lits w) n)"
    by auto
  obtain pn cn gn where n': "n = (pn, cn, gn)" by (cases n)
  from n n' obtain c where c: "cs = c # cn" "atom_ok rt ic (Lit a) c" "pn = Some c" "gn = g"
    using step_set [of pn cn gn rt ic "Lit a" p cs g] by auto
  from Cons.IH [of pn cn] m n' c obtain xs
    where xs: "cn = xs @ fst (snd m)" "list_all2 (\<lambda>a x. atom_ok rt ic (Lit a) x) w xs"
      "snd (snd m) = g" "fst m = (if xs = [] then pn else Some (last xs))"
    by auto
  have "cs = (c # xs) @ fst (snd m) \<and>
        list_all2 (\<lambda>a x. atom_ok rt ic (Lit a) x) (a # w) (c # xs) \<and>
        snd (snd m) = g \<and> fst m = (if c # xs = [] then p else Some (last (c # xs)))"
    using c xs by simp
  then show ?case by blast
qed

lemma ends_lits_match:
  "list_all2 (\<lambda>a x. atom_ok rt ic (Lit a) x) w xs \<Longrightarrow>
   ends rt ic (lits w) (p, xs @ rest, g) = [(if xs = [] then p else Some (last xs), rest, g)]"
proof (induction w arbitrary: p xs)
  case Nil
  then show ?case by simp
next
  case (Cons a w)
  from Cons.prems obtain c ys where xs: "xs = c # ys" "atom_ok rt ic (Lit a) c"
    "list_all2 (\<lambda>a x. atom_ok rt ic (Lit a) x) w ys"
    by (auto simp: list_all2_Cons1)
  from Cons.IH [OF xs(3), of "Some c"] xs show ?case
    by simp
qed

lemma lits_same_word:
  "list_all2 (\<lambda>a x. atom_ok rt True (Lit a) x) w xs \<longleftrightarrow> same_word xs w"
  unfolding same_word_def
proof (induction w arbitrary: xs)
  case Nil
  then show ?case by simp
next
  case (Cons a w)
  then show ?case by (cases xs) auto
qed

lemma lits_same_word_exact:
  "list_all2 (\<lambda>a x. atom_ok rt False (Lit a) x) w xs \<Longrightarrow> same_word xs w"
  unfolding same_word_def
proof (induction w arbitrary: xs)
  case Nil
  then show ?case by simp
next
  case (Cons a w)
  then show ?case by (cases xs) (auto simp: ci_class_def Let_def)
qed

lemma ends_lits_word:
  "m \<in> set (ends rt True (lits w) (p, cs, g)) \<Longrightarrow>
     \<exists>xs. cs = xs @ fst (snd m) \<and> same_word xs w \<and>
          snd (snd m) = g \<and> fst m = (if xs = [] then p else Some (last xs))"
  using ends_lits_set [of m rt True w p cs g] unfolding lits_same_word .

lemma same_word_length: "same_word xs w \<Longrightarrow> length xs = length w"
  unfolding same_word_def by (rule list_all2_lengthD)

section \<open>The captured recommendation token\<close>

lemma same_word_capitals:
  "same_word g ''ACCEPT'' = same_word g ''accept''"
  "same_word g ''Accept'' = same_word g ''accept''"
  "same_word g ''REJECT'' = same_word g ''reject''"
  "same_word g ''Reject'' = same_word g ''reject''"
  by (simp_all add: same_word_def list_all2_Cons2 ci_class_def)

lemma upper_accept: "same_word g ''accept'' \<Longrightarrow> map upper g = ustr ''ACCEPT''"
  by (auto simp: same_word_def list_all2_Cons2 ci_class_def upper_def ustr_def)

lemma upper_reject: "same_word g ''reject'' \<Longrightarrow> map upper g = ustr ''REJECT''"
  by (auto simp: same_word_def list_all2_Cons2 ci_class_def upper_def ustr_def)

lemma upper_token:
  "is_token g \<Longrightarrow> map upper g = ustr ''ACCEPT'' \<or> map upper g = ustr ''REJECT''"
  unfolding is_token_def using upper_accept upper_reject by blast

lemma token_ascii_letters:
  "is_token g \<Longrightarrow> list_all (\<lambda>c. 0x41 \<le> c \<and> c \<le> 0x5A \<or> 0x61 \<le> c \<and> c \<le> 0x7A) g"
  by (auto simp: is_token_def same_word_def list_all2_Cons2 ci_class_def)

lemma group_alt_lits:
  assumes "m \<in> set (ends rt True (Group (Alt (lits a) (lits b))) s)"
  shows "\<exists>g. group1 m = Some g \<and> (same_word g a \<or> same_word g b)"
proof -
  obtain p cs g0 where s: "s = (p, cs, g0)" by (cases s)
  from assms s obtain n where n: "n \<in> set (ends rt True (lits a) (p, cs, g0)) \<or>
      n \<in> set (ends rt True (lits b) (p, cs, g0))"
    and m: "m = capture cs n"
    by auto
  obtain pn cn gn where n': "n = (pn, cn, gn)" by (cases n)
  from n obtain xs where xs: "cs = xs @ fst (snd n)"
    "same_word xs a \<or> same_word xs b"
    using ends_lits_word [of n rt a p cs g0] ends_lits_word [of n rt b p cs g0]
    by blast
  from xs n' have "take (length cs - length cn) cs = xs" by simp
  with m n' xs show ?thesis by (simp add: group1_def)
qed

lemma recommendation_pattern_token:
  assumes "r \<in> set recommendation_patterns" and "m \<in> set (ends rt True r s)"
  shows "\<exists>g. group1 m = Some g \<and> is_token g"
proof -
  from assms(1) consider
      "r = Seq (lits ''Recommendation'')
             (Seq (Opt (Lit CHR '':''))
                (Seq (Star Space) (Group (Alt (lits ''ACCEPT'') (lits ''REJECT'')))))"
    | "r = Seq (lits ''Recommendation'')
             (Seq (Opt (Lit CHR '':''))
                (Seq (Star Space) (Group (Alt (lits ''Accept'') (lits ''Reject'')))))"
    | "r = Seq (lits ''Recommendation'')
             (Seq (LazyStar Dot) (Group (Alt (lits ''ACCEPT'') (lits ''REJECT''))))"
    | "r = Seq (lits ''Recommendation'')
             (Seq (LazyStar Dot) (Group (Alt (lits ''Accept'') (lits ''Reject''))))"
    unfolding recommendation_patterns_def by auto
  then show ?thesis
  proof cases
    case 1
    from assms(2) [unfolded 1] obtain n1
      where "m \<in> set (ends rt True (Seq (Opt (Lit CHR '':''))
                (Seq (Star Space) (Group (Alt (lits ''ACCEPT'') (lits ''REJECT''))))) n1)"
      by (rule ends_Seq_tail)
    then obtain n2
      where "m \<in> set (ends rt True (Seq (Star Space) (Group (Alt (lits ''ACCEPT'') (lits ''REJECT'')))) n2)"
      by (rule ends_Seq_tail)
    then obtain n3 where "m \<in> set (ends rt True (Group (Alt (lits ''ACCEPT'') (lits ''REJECT''))) n3)"
      by (rule ends_Seq_tail)
    from group_alt_lits [OF this] show ?thesis
      unfolding is_token_def same_word_capitals .
  next
    case 2
    from assms(2) [unfolded 2] obtain n1
      where "m \<in> set (ends rt True (Seq (Opt (Lit CHR '':''))
                (Seq (Star Space) (Group (Alt (lits ''Accept'') (lits ''Reject''))))) n1)"
      by (rule ends_Seq_tail)
    then obtain n2
      where "m \<in> set (ends rt True (Seq (Star Space) (Group (Alt (lits ''Accept'') (lits ''Reject'')))) n2)"
      by (rule ends_Seq_tail)
    then obtain n3 where "m \<in> set (ends rt True (Group (Alt (lits ''Accept'') (lits ''Reject''))) n3)"
      by (rule ends_Seq_tail)
    from group_alt_lits [OF this] show ?thesis
      unfolding is_token_def same_word_capitals .
  next
    case 3
    from assms(2) [unfolded 3] obtain n1
      where "m \<in> set (ends rt True (Seq (LazyStar Dot) (Group (Alt (lits ''ACCEPT'') (lits ''REJECT'')))) n1)"
      by (rule ends_Seq_tail)
    then obtain n2 where "m \<in> set (ends rt True (Group (Alt (lits ''ACCEPT'') (lits ''REJECT''))) n2)"
      by (rule ends_Seq_tail)
    from group_alt_lits [OF this] show ?thesis
      unfolding is_token_def same_word_capitals .
  next
    case 4
    from assms(2) [unfolded 4] obtain n1
      where "m \<in> set (ends rt True (Seq (LazyStar Dot) (Group (Alt (lits ''Accept'') (lits ''Reject'')))) n1)"
      by (rule ends_Seq_tail)
    then obtain n2 where "m \<in> set (ends rt True (Group (Alt (lits ''Accept'') (lits ''Reject''))) n2)"
      by (rule ends_Seq_tail)
    from group_alt_lits [OF this] show ?thesis
      unfolding is_token_def same_word_capitals .
  qed
qed

lemma first_recommendation_match_token:
  assumes "first_match rt labelled_recommendation_patterns t = Some m"
  shows "\<exists>g. group1 m = Some g \<and> is_token g"
proof -
  from first_match_Some [OF assms] obtain ic r s
    where "(ic, r) \<in> set labelled_recommendation_patterns" "m \<in> set (ends rt ic r s)"
    by blast
  then have "r \<in> set recommendation_patterns" "m \<in> set (ends rt True r s)"
    by (auto simp: labelled_recommendation_patterns_def)
  then show ?thesis by (rule recommendation_pattern_token)
qed

section \<open>The standalone word\<close>

lemma search_from_None:
  "search_from rt ic r p cs = None \<longleftrightarrow>
     (\<forall>pre post. cs = pre @ post \<longrightarrow>
        ends rt ic r (if pre = [] then p else Some (last pre), post, None) = [])"
proof (induction cs arbitrary: p)
  case Nil
  then show ?case by (auto split: list.splits)
next
  case (Cons c cs)
  have "search_from rt ic r p (c # cs) = None \<longleftrightarrow>
        ends rt ic r (p, c # cs, None) = [] \<and> search_from rt ic r (Some c) cs = None"
    by (auto split: list.splits)
  also have "\<dots> \<longleftrightarrow> ends rt ic r (p, c # cs, None) = [] \<and>
      (\<forall>pre post. cs = pre @ post \<longrightarrow>
         ends rt ic r (if pre = [] then Some c else Some (last pre), post, None) = [])"
    by (simp only: Cons.IH)
  also have "\<dots> \<longleftrightarrow> (\<forall>pre post. c # cs = pre @ post \<longrightarrow>
        ends rt ic r (if pre = [] then p else Some (last pre), post, None) = [])"
  proof (intro iffI allI impI conjI)
    fix pre post
    assume h: "ends rt ic r (p, c # cs, None) = [] \<and>
      (\<forall>pre post. cs = pre @ post \<longrightarrow>
         ends rt ic r (if pre = [] then Some c else Some (last pre), post, None) = [])"
      and e: "c # cs = pre @ post"
    show "ends rt ic r (if pre = [] then p else Some (last pre), post, None) = []"
    proof (cases pre)
      case Nil
      with h e show ?thesis by simp
    next
      case (Cons x pre')
      with e have "x = c" "cs = pre' @ post" by simp_all
      from h \<open>cs = pre' @ post\<close>
      have "ends rt ic r (if pre' = [] then Some c else Some (last pre'), post, None) = []"
        by blast
      with Cons \<open>x = c\<close> show ?thesis by (cases "pre' = []") simp_all
    qed
  next
    assume h: "\<forall>pre post. c # cs = pre @ post \<longrightarrow>
        ends rt ic r (if pre = [] then p else Some (last pre), post, None) = []"
    from h [rule_format, of "[]" "c # cs"] show "ends rt ic r (p, c # cs, None) = []" by simp
  next
    fix pre post
    assume h: "\<forall>pre post. c # cs = pre @ post \<longrightarrow>
        ends rt ic r (if pre = [] then p else Some (last pre), post, None) = []"
      and e: "cs = pre @ post"
    from e have "c # cs = (c # pre) @ post" by simp
    with h have "ends rt ic r (if c # pre = [] then p else Some (last (c # pre)), post, None) = []"
      by blast
    then show "ends rt ic r (if pre = [] then Some c else Some (last pre), post, None) = []"
      by (cases "pre = []") simp_all
  qed
  finally show ?case .
qed

lemma letter_a_word: "runtime_ok rt \<Longrightarrow> x \<in> set (ci_class CHR ''a'') \<Longrightarrow> is_word rt x"
  by (auto simp: ci_class_def is_word_def ok_alnum ascii_alnum_def)

lemma letter_t_word: "runtime_ok rt \<Longrightarrow> x \<in> set (ci_class CHR ''t'') \<Longrightarrow> is_word rt x"
  by (auto simp: ci_class_def is_word_def ok_alnum ascii_alnum_def)

lemma ends_between_boundaries:
  "m \<in> set (ends rt ic (Seq WordB (Seq r WordB)) (p, cs, g)) \<longleftrightarrow>
     at_boundary rt p cs \<and> m \<in> set (ends rt ic r (p, cs, g)) \<and> at_boundary rt (fst m) (fst (snd m))"
proof (cases m)
  case (fields pm cm gm)
  have "m \<in> set (ends rt ic (Seq WordB (Seq r WordB)) (p, cs, g)) \<longleftrightarrow>
      at_boundary rt p cs \<and> (\<exists>n \<in> set (ends rt ic r (p, cs, g)). m \<in> set (ends rt ic WordB n))"
    by (auto split: if_splits)
  also have "\<dots> \<longleftrightarrow> at_boundary rt p cs \<and> m \<in> set (ends rt ic r (p, cs, g)) \<and> at_boundary rt pm cm"
    unfolding fields by (auto split: if_splits intro: bexI [of _ "(pm, cm, gm)"])
  finally show ?thesis by (simp add: fields)
qed

lemma at_boundary_before_word:
  "is_word rt c \<Longrightarrow> at_boundary rt p (c # cs) \<longleftrightarrow> (p = None \<or> \<not> is_word rt (the p))"
  by (cases p) (simp_all add: at_boundary_def)

lemma at_boundary_after_word:
  "is_word rt c \<Longrightarrow> at_boundary rt (Some c) cs \<longleftrightarrow> (cs = [] \<or> \<not> is_word rt (hd cs))"
  by (cases cs) (simp_all add: at_boundary_def)

lemma accept_letters:
  assumes "runtime_ok rt" and "same_word w ''accept''"
  shows "w \<noteq> [] \<and> is_word rt (hd w) \<and> is_word rt (last w)"
proof -
  from assms(2) obtain a b c d e f where w: "w = [a, b, c, d, e, f]"
    and a: "a \<in> set (ci_class CHR ''a'')" and f: "f \<in> set (ci_class CHR ''t'')"
    by (auto simp: same_word_def list_all2_Cons2)
  from letter_a_word [OF assms(1) a] letter_t_word [OF assms(1) f] w show ?thesis
    by simp
qed

lemma accept_word_ends:
  assumes ok: "runtime_ok rt"
  shows "ends rt True accept_word_pattern (p, cs, None) \<noteq> [] \<longleftrightarrow>
     (\<exists>w post. cs = w @ post \<and> same_word w ''accept'' \<and>
        (p = None \<or> \<not> is_word rt (the p)) \<and> (post = [] \<or> \<not> is_word rt (hd post)))"
proof
  assume "ends rt True accept_word_pattern (p, cs, None) \<noteq> []"
  then have "hd (ends rt True accept_word_pattern (p, cs, None)) \<in>
      set (ends rt True accept_word_pattern (p, cs, None))"
    by (rule hd_in_set)
  then obtain m where "m \<in> set (ends rt True accept_word_pattern (p, cs, None))" ..
  then have b1: "at_boundary rt p cs"
    and n: "m \<in> set (ends rt True (lits ''accept'') (p, cs, None))"
    and b2: "at_boundary rt (fst m) (fst (snd m))"
    unfolding accept_word_pattern_def ends_between_boundaries by blast+
  from ends_lits_word [OF n] obtain w
    where ww: "cs = w @ fst (snd m) \<and> same_word w ''accept'' \<and>
      snd (snd m) = None \<and> fst m = (if w = [] then p else Some (last w))" ..
  then have w: "cs = w @ fst (snd m)"
    "same_word w ''accept''" "fst m = (if w = [] then p else Some (last w))"
    by (simp_all only:)
  from accept_letters [OF ok w(2)] have l: "w \<noteq> []" "is_word rt (hd w)" "is_word rt (last w)"
    by simp_all
  from l(1) w(1) have cs: "cs = hd w # (tl w @ fst (snd m))" by simp
  from b1 have "p = None \<or> \<not> is_word rt (the p)"
    using at_boundary_before_word [OF l(2), of p "tl w @ fst (snd m)"] cs by simp
  moreover from b2 w(3) l(1) have "at_boundary rt (Some (last w)) (fst (snd m))" by simp
  then have "fst (snd m) = [] \<or> \<not> is_word rt (hd (fst (snd m)))"
    using at_boundary_after_word [OF l(3)] by simp
  ultimately have "cs = w @ fst (snd m) \<and> same_word w ''accept'' \<and>
        (p = None \<or> \<not> is_word rt (the p)) \<and>
        (fst (snd m) = [] \<or> \<not> is_word rt (hd (fst (snd m))))"
    using w(1,2) by (simp only: simp_thms)
  then show "\<exists>w post. cs = w @ post \<and> same_word w ''accept'' \<and>
        (p = None \<or> \<not> is_word rt (the p)) \<and> (post = [] \<or> \<not> is_word rt (hd post))"
    by (intro exI)
next
  assume "\<exists>w post. cs = w @ post \<and> same_word w ''accept'' \<and>
        (p = None \<or> \<not> is_word rt (the p)) \<and> (post = [] \<or> \<not> is_word rt (hd post))"
  then obtain w post where ww: "cs = w @ post \<and> same_word w ''accept'' \<and>
    (p = None \<or> \<not> is_word rt (the p)) \<and> (post = [] \<or> \<not> is_word rt (hd post))"
    by (elim exE)
  then have w: "cs = w @ post" "same_word w ''accept''"
    "p = None \<or> \<not> is_word rt (the p)" "post = [] \<or> \<not> is_word rt (hd post)"
    by (simp_all only:)
  from accept_letters [OF ok w(2)] have l: "w \<noteq> []" "is_word rt (hd w)" "is_word rt (last w)"
    by simp_all
  from l(1) w(1) have cs: "cs = hd w # (tl w @ post)" by simp
  have b1: "at_boundary rt p cs"
    using at_boundary_before_word [OF l(2), of p "tl w @ post"] cs w(3) by simp
  have b2: "at_boundary rt (Some (last w)) post"
    using at_boundary_after_word [OF l(3), of post] w(4) by simp
  have "list_all2 (\<lambda>a x. atom_ok rt True (Lit a) x) ''accept'' w"
    using w(2) by (simp only: lits_same_word)
  from ends_lits_match [OF this, of p post None] l(1)
  have "ends rt True (lits ''accept'') (p, cs, None) = [(Some (last w), post, None)]"
    unfolding w(1) by (simp only: if_False)
  then have "(Some (last w), post, None) \<in> set (ends rt True (lits ''accept'') (p, cs, None))"
    by (simp only: list.set_intros)
  with b1 b2 have "(Some (last w), post, None) \<in> set (ends rt True accept_word_pattern (p, cs, None))"
    unfolding accept_word_pattern_def ends_between_boundaries by simp
  then show "ends rt True accept_word_pattern (p, cs, None) \<noteq> []"
    by auto
qed

lemma accept_word_search:
  assumes ok: "runtime_ok rt"
  shows "re_search rt True accept_word_pattern t \<noteq> None \<longleftrightarrow> standalone_accept rt t"
proof
  assume "re_search rt True accept_word_pattern t \<noteq> None"
  then have "\<not> (\<forall>pre post. t = pre @ post \<longrightarrow>
      ends rt True accept_word_pattern (if pre = [] then None else Some (last pre), post, None) = [])"
    unfolding re_search_def search_from_None .
  then obtain pre post where t: "t = pre @ post"
    and e: "ends rt True accept_word_pattern (if pre = [] then None else Some (last pre), post, None) \<noteq> []"
    by auto
  from e [unfolded accept_word_ends [OF ok]] obtain w post'
    where ww: "post = w @ post' \<and> same_word w ''accept'' \<and>
      ((if pre = [] then None else Some (last pre)) = None \<or>
       \<not> is_word rt (the (if pre = [] then None else Some (last pre)))) \<and>
      (post' = [] \<or> \<not> is_word rt (hd post'))"
    by (elim exE)
  then have b: "pre = [] \<or> \<not> is_word rt (last pre)"
    by (cases "pre = []") simp_all
  from ww t b have "t = pre @ w @ post' \<and> same_word w ''accept'' \<and>
      (pre = [] \<or> \<not> is_word rt (last pre)) \<and> (post' = [] \<or> \<not> is_word rt (hd post'))"
    by (simp only: simp_thms)
  then show "standalone_accept rt t"
    unfolding standalone_accept_def by (intro exI)
next
  assume "standalone_accept rt t"
  then obtain pre w post where ww: "t = pre @ w @ post \<and> same_word w ''accept'' \<and>
      (pre = [] \<or> \<not> is_word rt (last pre)) \<and> (post = [] \<or> \<not> is_word rt (hd post))"
    unfolding standalone_accept_def by (elim exE)
  then have b: "(if pre = [] then None else Some (last pre)) = None \<or>
       \<not> is_word rt (the (if pre = [] then None else Some (last pre)))"
    by (cases "pre = []") simp_all
  from ww b have "w @ post = w @ post \<and> same_word w ''accept'' \<and>
      ((if pre = [] then None else Some (last pre)) = None \<or>
       \<not> is_word rt (the (if pre = [] then None else Some (last pre)))) \<and>
      (post = [] \<or> \<not> is_word rt (hd post))"
    by (simp only: simp_thms)
  then have "\<exists>w' post'. w @ post = w' @ post' \<and> same_word w' ''accept'' \<and>
      ((if pre = [] then None else Some (last pre)) = None \<or>
       \<not> is_word rt (the (if pre = [] then None else Some (last pre)))) \<and>
      (post' = [] \<or> \<not> is_word rt (hd post'))"
    by (intro exI)
  then have e: "ends rt True accept_word_pattern
      (if pre = [] then None else Some (last pre), w @ post, None) \<noteq> []"
    unfolding accept_word_ends [OF ok] .
  from ww have t: "t = pre @ (w @ post)" by (simp only:)
  have "\<not> (\<forall>pre post. t = pre @ post \<longrightarrow>
      ends rt True accept_word_pattern (if pre = [] then None else Some (last pre), post, None) = [])"
    using t e by blast
  then show "re_search rt True accept_word_pattern t \<noteq> None"
    unfolding re_search_def search_from_None .
qed

section \<open>The recommendation patterns and the variants of the specification\<close>

lemma preferred_group_Nil: "preferred_group [] = None"
  by (simp add: preferred_group_def)

lemma preferred_group_append:
  "preferred_group (xs @ ys) =
     (case preferred_group xs of Some g \<Rightarrow> Some g | None \<Rightarrow> preferred_group ys)"
  by (cases xs) (simp_all add: preferred_group_def)

lemma preferred_group_None: "preferred_group xs = None \<longleftrightarrow> xs = []"
  by (cases xs) (simp_all add: preferred_group_def)

lemma ends_lits_exact:
  "ends rt True (lits w) (p, cs, g) =
     (if same_word (take (length w) cs) w
      then [(if w = [] then p else Some (last (take (length w) cs)), drop (length w) cs, g)]
      else [])"
proof (cases "same_word (take (length w) cs) w")
  case True
  let ?xs = "take (length w) cs"
  from True have "list_all2 (\<lambda>a x. atom_ok rt True (Lit a) x) w ?xs"
    by (simp only: lits_same_word)
  from ends_lits_match [OF this, of p "drop (length w) cs" g]
  have "ends rt True (lits w) (p, cs, g) =
      [(if ?xs = [] then p else Some (last ?xs), drop (length w) cs, g)]"
    by simp
  moreover from same_word_length [OF True] have "?xs = [] \<longleftrightarrow> w = []"
    by (metis length_0_conv)
  ultimately show ?thesis using True by simp
next
  case False
  have "ends rt True (lits w) (p, cs, g) = []"
  proof (rule ccontr)
    assume "ends rt True (lits w) (p, cs, g) \<noteq> []"
    then have "hd (ends rt True (lits w) (p, cs, g)) \<in> set (ends rt True (lits w) (p, cs, g))"
      by (rule hd_in_set)
    from ends_lits_word [OF this] obtain xs rest where xs: "cs = xs @ rest" "same_word xs w"
      by blast
    from same_word_length [OF xs(2)] xs(1) have "take (length w) cs = xs" by simp
    with xs(2) False show False by simp
  qed
  with False show ?thesis by simp
qed

lemma token_group:
  "preferred_group (ends rt True (Group (Alt (lits w1) (lits w2))) (p, cs, g)) =
     map_option Some (token_at w1 w2 cs)"
proof -
  have n: "take (length cs - (length cs - n)) cs = take n cs" for n
    by (cases "n \<le> length cs") simp_all
  show ?thesis
    by (simp add: ends_lits_exact token_at_def preferred_group_def group1_def n)
qed

lemma token_none:
  "token_at w1 w2 cs = None \<Longrightarrow> ends rt True (Group (Alt (lits w1) (lits w2))) (p, cs, g) = []"
  using token_group [of rt w1 w2 p cs g] by (simp add: preferred_group_None)

lemma greedy_then:
  assumes "\<And>p c cs. P c \<Longrightarrow> F (p, c # cs, g) = []"
  shows "\<exists>p'. concat (map F (greedy P p cs g)) = F (p', dropWhile P cs, g)"
proof (induction cs arbitrary: p)
  case Nil
  have "concat (map F (greedy P p [] g)) = F (p, dropWhile P [], g)" by simp
  then show ?case ..
next
  case (Cons c cs)
  show ?case
  proof (cases "P c")
    case True
    from Cons [of "Some c"] obtain p'
      where "concat (map F (greedy P (Some c) cs g)) = F (p', dropWhile P cs, g)" ..
    with True assms [OF True, of p cs]
    have "concat (map F (greedy P p (c # cs) g)) = F (p', dropWhile P (c # cs), g)" by simp
    then show ?thesis ..
  next
    case False
    then have "concat (map F (greedy P p (c # cs) g)) = F (p, dropWhile P (c # cs), g)" by simp
    then show ?thesis ..
  qed
qed

lemma lazy_then:
  assumes "\<And>p cs. preferred_group (F (p, cs, g)) = map_option Some (token_at w1 w2 cs)"
    and "token_at w1 w2 [] = None"
  shows "preferred_group (concat (map F (lazy (\<lambda>c. c \<noteq> 0x0A) p cs g))) =
           map_option Some (first_token_on_line w1 w2 cs)"
proof (induction cs arbitrary: p)
  case Nil
  then show ?case by (simp add: assms)
next
  case (Cons c cs)
  then show ?case
    by (simp add: assms(1) preferred_group_append split: option.splits)
qed

lemma search_leftmost:
  assumes "\<And>p cs. preferred_group (ends rt ic r (p, cs, None)) = map_option Some (f cs)"
  shows "map_option group1 (search_from rt ic r p cs) = map_option Some (leftmost f cs)"
proof (induction cs arbitrary: p)
  case Nil
  from assms [of p "[]"] show ?case
    by (auto simp: preferred_group_def split: list.splits option.splits)
next
  case (Cons c cs)
  from assms [of p "c # cs"] Cons [of "Some c"] show ?case
    by (auto simp: preferred_group_def split: list.splits option.splits)
qed

text \<open>The tokens start with a letter, which is neither white space nor a colon.\<close>

lemma letter_not_space:
  assumes "runtime_ok rt" and "is_space rt c"
  shows "c \<noteq> 0x41 \<and> c \<noteq> 0x61 \<and> c \<noteq> 0x52 \<and> c \<noteq> 0x72"
  using assms by (auto simp: is_space_def ok_whitespace ascii_whitespace_def)

lemma token_not_space:
  assumes "runtime_ok rt"
  shows "\<forall>c cs. is_space rt c \<longrightarrow> token_at ''ACCEPT'' ''REJECT'' (c # cs) = None"
    and "\<forall>c cs. is_space rt c \<longrightarrow> token_at ''Accept'' ''Reject'' (c # cs) = None"
  using letter_not_space [OF assms]
  by (simp_all add: token_at_def same_word_def list_all2_Cons2 ci_class_def)

lemma token_not_colon:
  "\<forall>cs. token_at ''ACCEPT'' ''REJECT'' (0x3A # cs) = None"
  "\<forall>cs. token_at ''Accept'' ''Reject'' (0x3A # cs) = None"
  by (simp_all add: token_at_def same_word_def list_all2_Cons2 ci_class_def)

lemma token_not_empty:
  "token_at ''ACCEPT'' ''REJECT'' [] = None"
  "token_at ''Accept'' ''Reject'' [] = None"
  by (simp_all add: token_at_def same_word_def)

lemma colon_not_space: "runtime_ok rt \<Longrightarrow> \<not> is_space rt 0x3A"
  by (simp add: is_space_def ok_whitespace ascii_whitespace_def)

lemma ci_class_colon: "ci_class CHR '':'' = [0x3A]"
  by (simp add: ci_class_def)

lemma atom_ok_Dot: "atom_ok rt ic Dot = (\<lambda>c. c \<noteq> 0x0A)"
  by (rule ext) simp

lemma opt_then:
  "ends rt ic (Seq (Opt a) r) (p, cs, g) =
     (case cs of
        [] \<Rightarrow> ends rt ic r (p, [], g)
      | c # cs' \<Rightarrow>
          if atom_ok rt ic a c then ends rt ic r (Some c, cs', g) @ ends rt ic r (p, c # cs', g)
          else ends rt ic r (p, c # cs', g))"
  by (cases cs) simp_all

lemma star_then:
  assumes "\<And>p c cs. atom_ok rt ic a c \<Longrightarrow> ends rt ic r (p, c # cs, g) = []"
  shows "\<exists>p'. ends rt ic (Seq (Star a) r) (p, cs, g) =
               ends rt ic r (p', dropWhile (atom_ok rt ic a) cs, g)"
  using greedy_then [of "atom_ok rt ic a" "ends rt ic r" g p cs, OF assms] by simp

lemma lazy_dot_then:
  assumes "\<And>p cs. preferred_group (ends rt ic r (p, cs, g)) = map_option Some (token_at w1 w2 cs)"
    and "token_at w1 w2 [] = None"
  shows "preferred_group (ends rt ic (Seq (LazyStar Dot) r) (p, cs, g)) =
           map_option Some (first_token_on_line w1 w2 cs)"
  using lazy_then [of "ends rt ic r" g w1 w2 p cs, OF assms] by (simp add: atom_ok_Dot)

lemma immediately_group:
  assumes ok: "runtime_ok rt"
    and sp: "\<forall>c cs. is_space rt c \<longrightarrow> token_at w1 w2 (c # cs) = None"
    and co: "\<forall>cs. token_at w1 w2 (0x3A # cs) = None"
  shows "preferred_group
           (ends rt True
              (Seq (Opt (Lit CHR '':''))
                 (Seq (Star Space) (Group (Alt (lits w1) (lits w2))))) (p, cs, g)) =
         map_option Some (token_at w1 w2 (dropWhile (is_space rt) (drop_colon cs)))"
proof -
  let ?G = "Group (Alt (lits w1) (lits w2))"
  let ?X = "Seq (Star Space) ?G"
  have F: "ends rt True ?G (p, c # cs, g) = []" if "atom_ok rt True Space c" for p c cs
  proof (rule token_none)
    from that have "is_space rt c" by simp
    then show "token_at w1 w2 (c # cs) = None" by (rule sp [rule_format])
  qed
  have X: "\<exists>p'. ends rt True ?X (p, cs, g) =
             ends rt True ?G (p', dropWhile (is_space rt) cs, g)" for p cs
    using star_then [of rt True Space ?G g p cs, OF F] unfolding atom_ok_Space .
  have Xg: "preferred_group (ends rt True ?X (p, cs, g)) =
      map_option Some (token_at w1 w2 (dropWhile (is_space rt) cs))" for p cs
  proof -
    from X [of p cs] obtain p' where "ends rt True ?X (p, cs, g) =
             ends rt True ?G (p', dropWhile (is_space rt) cs, g)" ..
    then show ?thesis by (simp only: token_group)
  qed
  show ?thesis
  proof (cases cs)
    case Nil
    have "ends rt True (Seq (Opt (Lit CHR '':'')) ?X) (p, [], g) = ends rt True ?X (p, [], g)"
      by (simp only: opt_then list.case)
    with Nil show ?thesis
      using Xg [of p "[]"] by (simp only: drop_colon_def list.case)
  next
    case (Cons c cs')
    show ?thesis
    proof (cases "c = 0x3A")
      case True
      have "ends rt True ?X (p, 0x3A # cs', g) = []"
      proof -
        from X [of p "0x3A # cs'"] obtain p'
          where "ends rt True ?X (p, 0x3A # cs', g) =
             ends rt True ?G (p', dropWhile (is_space rt) (0x3A # cs'), g)" ..
        also have "dropWhile (is_space rt) (0x3A # cs') = 0x3A # cs'"
          using colon_not_space [OF ok] by simp
        also have "ends rt True ?G (p', 0x3A # cs', g) = []"
          using co [rule_format, of cs'] by (rule token_none)
        finally show ?thesis .
      qed
      moreover have "ends rt True (Seq (Opt (Lit CHR '':'')) ?X) (p, 0x3A # cs', g) =
         ends rt True ?X (Some 0x3A, cs', g) @ ends rt True ?X (p, 0x3A # cs', g)"
        by (simp add: opt_then ci_class_colon del: ends.simps)
      ultimately have "ends rt True (Seq (Opt (Lit CHR '':'')) ?X) (p, 0x3A # cs', g) =
         ends rt True ?X (Some 0x3A, cs', g)"
        by (simp only: append_Nil2)
      then have "preferred_group (ends rt True (Seq (Opt (Lit CHR '':'')) ?X) (p, cs, g)) =
          map_option Some (token_at w1 w2 (dropWhile (is_space rt) cs'))"
        unfolding Cons True by (simp only: Xg)
      moreover have "drop_colon cs = cs'"
        unfolding Cons True by (simp add: drop_colon_def)
      ultimately show ?thesis by (simp only:)
    next
      case False
      then have "ends rt True (Seq (Opt (Lit CHR '':'')) ?X) (p, c # cs', g) =
         ends rt True ?X (p, c # cs', g)"
        by (simp add: opt_then ci_class_colon del: ends.simps)
      then have "preferred_group (ends rt True (Seq (Opt (Lit CHR '':'')) ?X) (p, cs, g)) =
          map_option Some (token_at w1 w2 (dropWhile (is_space rt) cs))"
        unfolding Cons by (simp only: Xg)
      moreover from False have "drop_colon cs = cs"
        unfolding Cons by (simp add: drop_colon_def)
      ultimately show ?thesis by (simp only:)
    qed
  qed
qed

lemma after_label:
  "preferred_group (ends rt True (Seq (lits w) r) (p, cs, None)) =
     (case after_word w cs of
        None \<Rightarrow> None
      | Some rest \<Rightarrow>
          preferred_group
            (ends rt True r
               (if w = [] then p else Some (last (take (length w) cs)), rest, None)))"
  by (simp add: ends_lits_exact after_word_def preferred_group_Nil)

lemma immediately_pattern:
  assumes ok: "runtime_ok rt"
    and sp: "\<forall>c cs. is_space rt c \<longrightarrow> token_at w1 w2 (c # cs) = None"
    and co: "\<forall>cs. token_at w1 w2 (0x3A # cs) = None"
  shows "preferred_group
           (ends rt True
              (Seq (lits ''Recommendation'')
                 (Seq (Opt (Lit CHR '':''))
                    (Seq (Star Space) (Group (Alt (lits w1) (lits w2)))))) (p, cs, None)) =
         map_option Some (immediately_followed rt w1 w2 cs)"
  unfolding after_label immediately_followed_def immediately_group [OF ok sp co]
  by (simp split: option.splits)

lemma loosely_pattern:
  assumes "token_at w1 w2 [] = None"
  shows "preferred_group
           (ends rt True
              (Seq (lits ''Recommendation'')
                 (Seq (LazyStar Dot) (Group (Alt (lits w1) (lits w2))))) (p, cs, None)) =
         map_option Some (loosely_followed w1 w2 cs)"
proof -
  have h: "preferred_group
      (ends rt True (Seq (LazyStar Dot) (Group (Alt (lits w1) (lits w2)))) (p, cs, None)) =
      map_option Some (first_token_on_line w1 w2 cs)" for p cs
    by (rule lazy_dot_then [OF token_group assms])
  show ?thesis
    unfolding after_label loosely_followed_def h by (simp split: option.splits)
qed

lemma re_search_variant:
  assumes "\<And>p cs. preferred_group (ends rt True r (p, cs, None)) = map_option Some (f cs)"
  shows "rec_loop rt (r # rs) t =
           (case leftmost f t of Some g \<Rightarrow> Inr (Some (map upper g)) | None \<Rightarrow> rec_loop rt rs t)"
proof -
  from search_leftmost [of rt True r f None t, OF assms]
  have "map_option group1 (re_search rt True r t) = map_option Some (leftmost f t)"
    by (simp add: re_search_def)
  then show ?thesis
    by (cases "re_search rt True r t"; cases "leftmost f t") (simp_all add: upper_group1_def)
qed

lemma rec_loop_variants:
  assumes ok: "runtime_ok rt"
  shows "rec_loop rt recommendation_patterns t =
           Inr (map_option (map upper) (first_variant (recommendation_variants rt) t))"
proof -
  note v1 = re_search_variant [OF immediately_pattern [OF ok token_not_space(1) [OF ok]
        token_not_colon(1)]]
  note v2 = re_search_variant [OF immediately_pattern [OF ok token_not_space(2) [OF ok]
        token_not_colon(2)]]
  note v3 = re_search_variant [OF loosely_pattern [OF token_not_empty(1)]]
  note v4 = re_search_variant [OF loosely_pattern [OF token_not_empty(2)]]
  show ?thesis
    unfolding recommendation_patterns_def recommendation_variants_def v1 v2 v3 v4
    by (simp split: option.splits)
qed

lemma parse_recommendation_spec:
  assumes ok: "runtime_ok rt"
  shows "parse_recommendation rt t = Inr (spec_recommendation rt t)"
  unfolding parse_recommendation_def spec_recommendation_def rec_loop_variants [OF ok]
    accept_word_search [OF ok]
  by (simp split: option.splits)

section \<open>Skipping the positions where a pattern does not match\<close>

lemma search_from_skip:
  "(\<And>i. i < length pre \<Longrightarrow>
      ends rt ic r (if i = 0 then p else Some (pre ! (i - 1)), drop i pre @ cs, None) = []) \<Longrightarrow>
   search_from rt ic r p (pre @ cs) = search_from rt ic r (if pre = [] then p else Some (last pre)) cs"
proof (induction pre arbitrary: p)
  case Nil
  then show ?case by simp
next
  case (Cons x pre)
  from Cons.prems [of 0] have first: "ends rt ic r (p, x # pre @ cs, None) = []" by simp
  have rest: "ends rt ic r (if i = 0 then Some x else Some (pre ! (i - 1)), drop i pre @ cs, None) = []"
    if "i < length pre" for i
    using Cons.prems [of "Suc i"] that by (cases i) simp_all
  have "search_from rt ic r p ((x # pre) @ cs) = search_from rt ic r (Some x) (pre @ cs)"
    using first by simp
  also have "\<dots> = search_from rt ic r (if pre = [] then Some x else Some (last pre)) cs"
    using rest by (rule Cons.IH)
  finally show ?case by simp
qed

lemma re_search_skip:
  assumes "\<forall>i<length pre. \<not> matches_at rt ic r (pre @ cs) i"
  shows "re_search rt ic r (pre @ cs) =
           search_from rt ic r (if pre = [] then None else Some (last pre)) cs"
  unfolding re_search_def
proof (rule search_from_skip)
  fix i
  assume i: "i < length pre"
  with assms have "ends rt ic r (prev_char (pre @ cs) i, drop i (pre @ cs), None) = []"
    by (simp add: matches_at_def)
  moreover have "prev_char (pre @ cs) i = (if i = 0 then None else Some (pre ! (i - 1)))"
    using i by (cases i) (simp_all add: prev_char_def nth_append)
  moreover have "drop i (pre @ cs) = drop i pre @ cs"
    using i by simp
  ultimately show "ends rt ic r (if i = 0 then None else Some (pre ! (i - 1)), drop i pre @ cs, None) = []"
    by simp
qed

section \<open>A number after the label\<close>

lemma greedy_run:
  "list_all P ds \<Longrightarrow> post = [] \<or> \<not> P (hd post) \<Longrightarrow>
   \<exists>rest. greedy P p (ds @ post) g = (if ds = [] then p else Some (last ds), post, g) # rest"
proof (induction ds arbitrary: p)
  case Nil
  then show ?case by (cases post) simp_all
next
  case (Cons d ds)
  from Cons.prems have "list_all P ds" "P d" by simp_all
  from Cons.IH [OF this(1) Cons.prems(2), of "Some d"] obtain rest
    where "greedy P (Some d) (ds @ post) g =
             (if ds = [] then Some d else Some (last ds), post, g) # rest" ..
  with \<open>P d\<close> show ?case by simp
qed

lemma char_classes:
  assumes "runtime_ok rt"
  shows "is_space rt 0x20" "\<not> is_space rt 0x3A" "\<not> is_digit rt 0x20" "\<not> is_digit rt 0x3A"
  using assms
  by (simp_all add: is_space_def is_digit_def ok_whitespace ok_decimal ascii_whitespace_def
      ascii_decimal_def)

lemma primary_at_label:
  assumes ok: "runtime_ok rt"
    and "is_digit rt d" "list_all (is_digit rt) ds" "post = [] \<or> \<not> is_digit rt (hd post)"
  shows "\<exists>rest. ends rt False match_percentage_pattern
            (p, ustr ''Match Percentage: '' @ (d # ds) @ post, None) =
          (Some (last (d # ds)), post, Some (d # ds)) # rest"
proof -
  from greedy_run [OF assms(3,4), of "Some d" None] obtain rest
    where g: "greedy (is_digit rt) (Some d) (ds @ post) None =
             (if ds = [] then Some d else Some (last ds), post, None) # rest" ..
  from assms(2) have s: "\<not> is_space rt d" using space_not_digit [OF ok] by blast
  show ?thesis
    using assms(2) s g
    by (simp add: match_percentage_pattern_def ustr_def atom_ok_Digit atom_ok_Space
        char_classes [OF ok])
qed

lemma primary_search_at_label:
  assumes ok: "runtime_ok rt"
    and "is_digit rt d" "list_all (is_digit rt) ds" "post = [] \<or> \<not> is_digit rt (hd post)"
  shows "search_from rt False match_percentage_pattern p
            (ustr ''Match Percentage: '' @ (d # ds) @ post) =
          Some (Some (last (d # ds)), post, Some (d # ds))"
proof -
  have e: "ustr ''Match Percentage: '' @ (d # ds) @ post =
      0x4D # (ustr ''atch Percentage: '' @ (d # ds) @ post)"
    by (simp add: ustr_def)
  from primary_at_label [OF assms, of p] obtain rest
    where "ends rt False match_percentage_pattern
            (p, ustr ''Match Percentage: '' @ (d # ds) @ post, None) =
          (Some (last (d # ds)), post, Some (d # ds)) # rest" ..
  then have "ends rt False match_percentage_pattern
            (p, 0x4D # (ustr ''atch Percentage: '' @ (d # ds) @ post), None) =
          (Some (last (d # ds)), post, Some (d # ds)) # rest"
    by (simp only: e)
  then have "search_from rt False match_percentage_pattern p
            (0x4D # (ustr ''atch Percentage: '' @ (d # ds) @ post)) =
          Some (Some (last (d # ds)), post, Some (d # ds))"
    by (simp only: search_from.simps list.case)
  then show ?thesis by (simp only: e)
qed

lemma parse_percentage_at_label:
  assumes ok: "runtime_ok rt"
    and "is_number rt ds" "post = [] \<or> \<not> is_digit rt (hd post)"
    and "\<forall>i<length pre. \<not> matches_at rt False match_percentage_pattern
            (pre @ ustr ''Match Percentage: '' @ ds @ post) i"
  shows "parse_percentage rt (pre @ ustr ''Match Percentage: '' @ ds @ post) = py_int rt ds"
proof -
  from assms(2) obtain d ds' where ds: "ds = d # ds'" "is_digit rt d" "list_all (is_digit rt) ds'"
    by (cases ds) (auto simp: is_number_def)
  have "re_search rt False match_percentage_pattern
        (pre @ ustr ''Match Percentage: '' @ ds @ post) =
      search_from rt False match_percentage_pattern (if pre = [] then None else Some (last pre))
        (ustr ''Match Percentage: '' @ ds @ post)"
    using assms(4) by (rule re_search_skip)
  also have "\<dots> = Some (Some (last ds), post, Some ds)"
    unfolding ds(1) using ok ds(2,3) assms(3) by (rule primary_search_at_label)
  finally show ?thesis
    by (simp add: parse_percentage_def int_group1_def group1_def)
qed

section \<open>Texts without the label\<close>

lemma lits_prefix:
  assumes "ends rt ic (lits w) (p, cs, g) \<noteq> []"
  shows "same_word (take (length w) cs) w"
proof -
  let ?m = "hd (ends rt ic (lits w) (p, cs, g))"
  from assms have "?m \<in> set (ends rt ic (lits w) (p, cs, g))"
    by (rule hd_in_set)
  from ends_lits_set [OF this] obtain xs
    where xs: "cs = xs @ fst (snd ?m)" "list_all2 (\<lambda>a x. atom_ok rt ic (Lit a) x) w xs"
    by (elim exE conjE)
  have l: "same_word xs w"
  proof (cases ic)
    case True
    with xs(2) show ?thesis by (simp only: lits_same_word)
  next
    case False
    with xs(2) show ?thesis by (simp only: lits_same_word_exact)
  qed
  from l have "length xs = length w" by (rule same_word_length)
  moreover from xs(1) obtain rest where "cs = xs @ rest" ..
  ultimately have "take (length w) cs = xs" by simp
  with l show ?thesis by simp
qed

lemma search_from_no_label:
  "\<not> occurs_ic w cs \<Longrightarrow> search_from rt ic (Seq (lits w) r) p cs = None"
proof (induction cs arbitrary: p)
  case Nil
  have "ends rt ic (lits w) (p, [], None) = []"
  proof (rule ccontr)
    assume "ends rt ic (lits w) (p, [], None) \<noteq> []"
    from lits_prefix [OF this] have "w = []" by (simp add: same_word_def)
    with Nil show False by simp
  qed
  then show ?case by simp
next
  case (Cons c cs)
  have "ends rt ic (lits w) (p, c # cs, None) = []"
  proof (rule ccontr)
    assume "ends rt ic (lits w) (p, c # cs, None) \<noteq> []"
    from lits_prefix [OF this] Cons.prems show False by simp
  qed
  moreover from Cons have "search_from rt ic (Seq (lits w) r) (Some c) cs = None" by simp
  ultimately show ?case by simp
qed

lemma label_patterns_no_match:
  assumes "\<not> occurs_ic ''Match Percentage'' t"
  shows "re_search rt False match_percentage_pattern t = None"
    and "re_search rt True (alt_patterns ! 0) t = None"
    and "re_search rt True (alt_patterns ! 1) t = None"
  using assms
  unfolding re_search_def match_percentage_pattern_def alt_patterns_def nth_Cons_0 nth_Cons_Suc One_nat_def
  by (rule search_from_no_label)+

lemma fallback_at_phrase:
  assumes ok: "runtime_ok rt"
  shows "\<exists>rest. ends rt True (last alt_patterns)
            (p, ustr ''match score around 82%'' @ post, None) =
          (Some 0x25, post, Some (ustr ''82'')) # rest"
  by (simp add: alt_patterns_def ustr_def ci_class_def is_digit_def ok_decimal [OF ok]
      ascii_decimal_def)

lemma fallback_search_at_phrase:
  assumes ok: "runtime_ok rt"
  shows "search_from rt True (last alt_patterns) p (ustr ''match score around 82%'' @ post) =
     Some (Some 0x25, post, Some (ustr ''82''))"
proof -
  have e: "ustr ''match score around 82%'' @ post =
      0x6D # (ustr ''atch score around 82%'' @ post)"
    by (simp add: ustr_def)
  from fallback_at_phrase [OF ok, of p post] obtain rest
    where "ends rt True (last alt_patterns) (p, ustr ''match score around 82%'' @ post, None) =
     (Some 0x25, post, Some (ustr ''82'')) # rest" ..
  then have "ends rt True (last alt_patterns)
       (p, 0x6D # (ustr ''atch score around 82%'' @ post), None) =
     (Some 0x25, post, Some (ustr ''82'')) # rest"
    by (simp only: e)
  then have "search_from rt True (last alt_patterns) p
       (0x6D # (ustr ''atch score around 82%'' @ post)) =
     Some (Some 0x25, post, Some (ustr ''82''))"
    by (simp only: search_from.simps list.case)
  then show ?thesis by (simp only: e)
qed

lemma py_int_82:
  assumes ok: "runtime_ok rt"
  shows "py_int rt (ustr ''82'') = Inr 82"
  by (simp add: py_int_def exceeds_digit_limit_def digits_value_def digit_val_def is_digit_def
      ustr_def ok_decimal [OF ok] ascii_decimal_def)

lemma parse_percentage_at_phrase:
  assumes ok: "runtime_ok rt"
    and "\<not> occurs_ic ''Match Percentage'' (pre @ ustr ''match score around 82%'' @ post)"
    and "\<forall>i<length pre. \<not> matches_at rt True (last alt_patterns)
            (pre @ ustr ''match score around 82%'' @ post) i"
  shows "parse_percentage rt (pre @ ustr ''match score around 82%'' @ post) = Inr 82"
proof -
  let ?t = "pre @ ustr ''match score around 82%'' @ post"
  note no = label_patterns_no_match [OF assms(2), of rt]
  have "re_search rt True (last alt_patterns) ?t =
      search_from rt True (last alt_patterns) (if pre = [] then None else Some (last pre))
        (ustr ''match score around 82%'' @ post)"
    using assms(3) by (rule re_search_skip)
  also have "\<dots> = Some (Some 0x25, post, Some (ustr ''82''))"
    using ok by (rule fallback_search_at_phrase)
  finally have l: "re_search rt True (last alt_patterns) ?t =
      Some (Some 0x25, post, Some (ustr ''82''))" .
  have a: "alt_patterns = [alt_patterns ! 0, alt_patterns ! 1, last alt_patterns]"
    by (simp add: alt_patterns_def)
  have "alt_loop rt [alt_patterns ! 0, alt_patterns ! 1, last alt_patterns] ?t = Inr 82"
    using no(2,3) l
    by (simp add: int_group1_def group1_def py_int_82 [OF ok] del: append.simps)
  then have "alt_loop rt alt_patterns ?t = Inr 82"
    by (simp only: a [symmetric])
  with no(1) show ?thesis by (simp add: parse_percentage_def del: append.simps)
qed

section \<open>The recommendation\<close>

lemma token_at_Some: "token_at w1 w2 cs = Some g \<Longrightarrow> same_word g w1 \<or> same_word g w2"
  by (auto simp: token_at_def split: if_splits)

lemma first_token_Some:
  "first_token_on_line w1 w2 cs = Some g \<Longrightarrow> same_word g w1 \<or> same_word g w2"
proof (induction cs)
  case Nil
  then show ?case by simp
next
  case (Cons c cs)
  show ?case
  proof (cases "token_at w1 w2 (c # cs)")
    case None
    with Cons show ?thesis by (simp split: if_splits)
  next
    case (Some h)
    with Cons.prems have "h = g" by simp
    with Some show ?thesis by (simp add: token_at_Some)
  qed
qed

lemma leftmost_Some: "leftmost f t = Some g \<Longrightarrow> \<exists>cs. f cs = Some g"
proof (induction t)
  case Nil
  then show ?case by auto
next
  case (Cons c t)
  then show ?case by (cases "f (c # t)") auto
qed

lemma variant_token:
  assumes "first_variant (recommendation_variants rt) t = Some g"
  shows "is_token g"
proof -
  from assms obtain f where f: "f \<in> set (recommendation_variants rt)" "leftmost f t = Some g"
    by (auto simp: recommendation_variants_def split: option.splits)
  from leftmost_Some [OF f(2)] obtain cs where cs: "f cs = Some g" ..
  from f(1) cs have "same_word g ''ACCEPT'' \<or> same_word g ''REJECT'' \<or>
      same_word g ''Accept'' \<or> same_word g ''Reject''"
    by (auto simp: recommendation_variants_def immediately_followed_def loosely_followed_def
        split: option.splits dest: token_at_Some first_token_Some)
  then show ?thesis
    unfolding is_token_def same_word_capitals by blast
qed

lemma spec_recommendation_value:
  "spec_recommendation rt t = ustr ''ACCEPT'' \<or> spec_recommendation rt t = ustr ''REJECT''"
proof (cases "first_variant (recommendation_variants rt) t")
  case None
  then show ?thesis by (simp add: spec_recommendation_def)
next
  case (Some g)
  from upper_token [OF variant_token [OF Some]] Some show ?thesis
    by (simp add: spec_recommendation_def)
qed

lemma parse_recommendation_total:
  assumes "runtime_ok rt"
  shows "parse_recommendation rt t = Inr (ustr ''ACCEPT'') \<or>
         parse_recommendation rt t = Inr (ustr ''REJECT'')"
  using spec_recommendation_value [of rt t] parse_recommendation_spec [OF assms, of t]
  by auto

lemma parse_recommendation_returns: "\<exists>rc. parse_recommendation rt t = Inr rc"
proof (cases "first_match rt labelled_recommendation_patterns t")
  case None
  then show ?thesis
    by (simp add: parse_recommendation_def rec_loop_first_match
        labelled_recommendation_patterns_def)
next
  case (Some m)
  from first_recommendation_match_token [OF Some] obtain g where "group1 m = Some g" by blast
  with Some show ?thesis
    by (simp add: parse_recommendation_def rec_loop_first_match
        labelled_recommendation_patterns_def upper_group1_def)
qed

lemmas spec_eval =
  spec_recommendation_def recommendation_variants_def immediately_followed_def
  loosely_followed_def after_word_def token_at_def drop_colon_def same_word_def
  ci_class_def upper_def ustr_def is_space_def latin1_runtime_def ascii_whitespace_def

text \<open>
  C4. On every interpreter whose tables are as assumed, and for every response text,
  the recommendation that the parsing returns is the recommendation of the
  specification. The label ``Recommendation'' is tried in four variants, in this
  order and with the case of the letters ignored: immediately followed by
  \<open>ACCEPT\<close> or \<open>REJECT\<close>, immediately followed by \<open>Accept\<close> or \<open>Reject\<close>, loosely
  followed by \<open>ACCEPT\<close> or \<open>REJECT\<close>, loosely followed by \<open>Accept\<close> or \<open>Reject\<close>;
  the first variant that applies somewhere in the text gives, at the leftmost place
  where it applies, the token that is returned in capitals, which is \<open>ACCEPT\<close> or
  \<open>REJECT\<close>. When no variant applies, the result is \<open>ACCEPT\<close> exactly when the
  standalone word ``accept'' occurs in the text, and \<open>REJECT\<close> otherwise.
\<close>

theorem recommendation_parsing:
  assumes "runtime_ok rt"
  shows "parse_recommendation rt t = Inr (spec_recommendation rt t) \<and>
         (\<forall>g. first_variant (recommendation_variants rt) t = Some g \<longrightarrow>
            is_token g \<and> parse_recommendation rt t = Inr (map upper g) \<and>
            (map upper g = ustr ''ACCEPT'' \<or> map upper g = ustr ''REJECT'')) \<and>
         (first_variant (recommendation_variants rt) t = None \<longrightarrow>
            parse_recommendation rt t =
              Inr (if standalone_accept rt t then ustr ''ACCEPT'' else ustr ''REJECT''))"
proof (intro conjI allI impI)
  show s: "parse_recommendation rt t = Inr (spec_recommendation rt t)"
    using assms by (rule parse_recommendation_spec)
  show "is_token g" if "first_variant (recommendation_variants rt) t = Some g" for g
    using that by (rule variant_token)
  show "parse_recommendation rt t = Inr (map upper g)"
    if "first_variant (recommendation_variants rt) t = Some g" for g
    using that s by (simp add: spec_recommendation_def)
  show "map upper g = ustr ''ACCEPT'' \<or> map upper g = ustr ''REJECT''"
    if "first_variant (recommendation_variants rt) t = Some g" for g
    using that by (intro upper_token variant_token)
  show "parse_recommendation rt t =
      Inr (if standalone_accept rt t then ustr ''ACCEPT'' else ustr ''REJECT'')"
    if "first_variant (recommendation_variants rt) t = None"
    using that s by (simp add: spec_recommendation_def)
qed

theorem recommendation_parsing_witness:
  "parse_recommendation latin1_runtime (ustr ''Recommendation: Accept'') = Inr (ustr ''ACCEPT'') \<and>
   parse_recommendation latin1_runtime (ustr ''Recommendation: REJECT (do not accept)'') =
     Inr (ustr ''REJECT'') \<and>
   parse_recommendation latin1_runtime (ustr ''The recommendation was reject. Recommendation: ACCEPT'') =
     Inr (ustr ''ACCEPT'') \<and>
   parse_recommendation latin1_runtime (ustr ''The recommendation is to reject.'') =
     Inr (ustr ''REJECT'') \<and>
   parse_recommendation latin1_runtime (ustr ''I would accept this candidate.'') =
     Inr (ustr ''ACCEPT'') \<and>
   parse_recommendation latin1_runtime (ustr ''Not acceptable.'') = Inr (ustr ''REJECT'')"
proof -
  note th = recommendation_parsing [OF runtime_ok_latin1, THEN conjunct1]
  have a: "spec_recommendation latin1_runtime (ustr ''Recommendation: Accept'') = ustr ''ACCEPT''"
    by (simp add: spec_eval)
  have b: "spec_recommendation latin1_runtime (ustr ''Recommendation: REJECT (do not accept)'') =
      ustr ''REJECT''"
    by (simp add: spec_eval)
  have c: "spec_recommendation latin1_runtime
      (ustr ''The recommendation was reject. Recommendation: ACCEPT'') = ustr ''ACCEPT''"
    by (simp add: spec_eval)
  have d: "spec_recommendation latin1_runtime (ustr ''The recommendation is to reject.'') =
      ustr ''REJECT''"
    by (simp add: spec_eval)
  have e1: "first_variant (recommendation_variants latin1_runtime)
      (ustr ''I would accept this candidate.'') = None"
    by (simp add: spec_eval)
  have e2: "standalone_accept latin1_runtime (ustr ''I would accept this candidate.'')"
    unfolding accept_word_search [OF runtime_ok_latin1, symmetric] by (simp add: parse_eval)
  have f1: "first_variant (recommendation_variants latin1_runtime) (ustr ''Not acceptable.'') = None"
    by (simp add: spec_eval)
  have f2: "\<not> standalone_accept latin1_runtime (ustr ''Not acceptable.'')"
    unfolding accept_word_search [OF runtime_ok_latin1, symmetric] by (simp add: parse_eval)
  from e1 e2 have e: "spec_recommendation latin1_runtime (ustr ''I would accept this candidate.'') =
      ustr ''ACCEPT''"
    by (simp add: spec_recommendation_def)
  from f1 f2 have f: "spec_recommendation latin1_runtime (ustr ''Not acceptable.'') = ustr ''REJECT''"
    by (simp add: spec_recommendation_def)
  show ?thesis
    using th [of "ustr ''Recommendation: Accept''"]
      th [of "ustr ''Recommendation: REJECT (do not accept)''"]
      th [of "ustr ''The recommendation was reject. Recommendation: ACCEPT''"]
      th [of "ustr ''The recommendation is to reject.''"]
      th [of "ustr ''I would accept this candidate.''"]
      th [of "ustr ''Not acceptable.''"]
    by (simp only: a b c d e f simp_thms)
qed

section \<open>The parsing as a whole\<close>

lemma parse_percentage_total:
  assumes "\<forall>m ds. first_match rt percentage_patterns t = Some m \<and> group1 m = Some ds \<longrightarrow>
             within_digit_limit rt ds"
  shows "\<exists>n. parse_percentage rt t = Inr n \<and> 0 \<le> n"
proof (cases "first_match rt percentage_patterns t")
  case None
  with parse_percentage_value [of rt t] show ?thesis by simp
next
  case (Some m)
  with parse_percentage_value [of rt t] obtain ds
    where ds: "group1 m = Some ds" "is_number rt ds" "parse_percentage rt t = py_int rt ds"
    by blast
  from assms Some ds(1) have "within_digit_limit rt ds" by blast
  with ds show ?thesis
    using digits_value_nonneg [of rt ds] by (simp add: py_int_number)
qed

lemma parsing_total_within_limit:
  assumes "runtime_ok rt"
    and "\<forall>m ds. first_match rt percentage_patterns t = Some m \<and> group1 m = Some ds \<longrightarrow>
           within_digit_limit rt ds"
  shows "\<exists>match_percentage recommendation.
     parse_response rt t = Inr (t, match_percentage, recommendation) \<and>
     0 \<le> match_percentage \<and>
     (recommendation = ustr ''ACCEPT'' \<or> recommendation = ustr ''REJECT'')"
proof -
  from parse_percentage_total [OF assms(2)] obtain n
    where n: "parse_percentage rt t = Inr n" "0 \<le> n" by blast
  from parse_recommendation_total [OF assms(1), of t] obtain rc
    where rc: "parse_recommendation rt t = Inr rc" "rc = ustr ''ACCEPT'' \<or> rc = ustr ''REJECT''"
    by auto
  have "parse_response rt t = Inr (t, n, rc)"
    using n rc by (simp add: parse_response_def)
  with n rc show ?thesis by (intro exI conjI)
qed

lemma parse_long_number:
  assumes ok: "runtime_ok rt" and "is_number rt ds" and "exceeds_digit_limit rt ds"
  shows "parse_response rt (ustr ''Match Percentage: '' @ ds) =
     Inl (Exn ''ValueError''
       (''Exceeds the limit ('' @ show_nat (int_max_str_digits rt) @
        '' digits) for integer string conversion: value has '' @
        show_nat (length ds) @
        '' digits; use sys.set_int_max_str_digits() to increase the limit''))"
proof -
  have "parse_percentage rt ([] @ ustr ''Match Percentage: '' @ ds @ []) = py_int rt ds"
    using ok assms(2) by (rule parse_percentage_at_label) simp_all
  then have "parse_percentage rt (ustr ''Match Percentage: '' @ ds) = py_int rt ds"
    by simp
  with py_int_exceeds [OF assms(2,3)] show ?thesis
    by (simp add: parse_response_def)
qed

lemma sevens_number: "is_number latin1_runtime (replicate 4301 0x37)"
  by (simp add: is_number_def list_all_iff is_digit_def latin1_runtime_def ascii_decimal_def)

lemma sevens_exceed: "exceeds_digit_limit latin1_runtime (replicate 4301 0x37)"
  by (simp add: exceeds_digit_limit_def latin1_runtime_def)

lemma show_4300: "show_nat 4300 = ''4300''" and show_4301: "show_nat 4301 = ''4301''"
  by (simp_all add: show_nat.simps)

lemma latin1_limit: "int_max_str_digits latin1_runtime = 4300"
  by (simp add: latin1_runtime_def)

text \<open>
  C7. The parsing is not total. On an interpreter with the limit of 4300 digits, a
  response text that gives the percentage with 4301 digits makes
  \<^verbatim>\<open>int(match.group(1))\<close> raise \<^verbatim>\<open>ValueError\<close>; nothing in \<^verbatim>\<open>analyz_match\<close> catches
  it, so the Evaluator returns no triple.
\<close>

theorem parsing_raises_beyond_digit_limit:
  "parse_response latin1_runtime (ustr ''Match Percentage: '' @ replicate 4301 0x37) =
     Inl (Exn ''ValueError''
       ''Exceeds the limit (4300 digits) for integer string conversion: value has 4301 digits; use sys.set_int_max_str_digits() to increase the limit'') \<and>
   analyz_match
     (env_of good_pdf (Inr (RStr (ustr ''Match Percentage: '' @ replicate 4301 0x37))) None)
     ''Python, SQL, 5 years experience'' ''Python, SQL, 3+ years'' =
     Inl (Exn ''ValueError''
       ''Exceeds the limit (4300 digits) for integer string conversion: value has 4301 digits; use sys.set_int_max_str_digits() to increase the limit'')"
proof -
  have p: "parse_response latin1_runtime (ustr ''Match Percentage: '' @ replicate 4301 0x37) =
     Inl (Exn ''ValueError''
       ''Exceeds the limit (4300 digits) for integer string conversion: value has 4301 digits; use sys.set_int_max_str_digits() to increase the limit'')"
    using parse_long_number [OF runtime_ok_latin1 sevens_number sevens_exceed]
    by (simp add: latin1_limit show_4300 show_4301)
  then show ?thesis
    by (simp add: analyz_match_def env_of_def)
qed

section \<open>The composed message\<close>

lemma composed_on_success:
  assumes "process_application ev w cv_file applicant_name applicant_email job_title
             job_description match_threshold = (Inr r, w')"
    and "map_of r ''recommendation'' = Some (PStr d)"
  shows "composed_messages (new_events w w') =
           [email_content applicant_name job_title (d = ''Accept'')]"
proof -
  obtain res w1 where pl: "pdf_loader ev w cv_file = (res, w1)"
    by (cases "pdf_loader ev w cv_file")
  from assms(1) pl obtain cv_text where res: "res = Inr cv_text"
    by (cases res) (auto simp: process_application_def)
  from assms(1) pl res obtain analysis_text match_percentage recommendation
    where am: "analyz_match ev cv_text job_description =
                 Inr (analysis_text, match_percentage, recommendation)"
    by (cases "analyz_match ev cv_text job_description")
      (auto simp: process_application_def)
  have tr: "trace w1 = trace w"
    using pl pdf_loader_trace by blast
  have ne: "analysis_text \<noteq> []"
  proof
    assume "analysis_text = []"
    with pl res am have "process_application ev w cv_file applicant_name applicant_email
        job_title job_description match_threshold =
        (Inr [(''success'', PBool False), (''message'', PStr ''Failed to analyze the CV.'')], w1)"
      by (simp add: process_application_empty)
    with assms show False by auto
  qed
  define is_match
    where "is_match = (match_threshold \<le> match_percentage \<or> recommendation = ustr ''ACCEPT'')"
  obtain email_subject email_body
    where ec: "email_content applicant_name job_title is_match = (email_subject, email_body)"
    by (cases "email_content applicant_name job_title is_match")
  obtain email_success email_message w3
    where se: "send_email ev (w1\<lparr>trace := trace w1 @ [Composed email_subject email_body]\<rparr>)
           applicant_email email_subject email_body = ((email_success, email_message), w3)"
    by (metis surj_pair)
  note pa = process_application_notified [OF pl [unfolded res] am ne is_match_def ec se]
  from pa assms have d: "d = (if is_match then ''Accept'' else ''Reject'')" and w': "w' = w3"
    by auto
  from d have "(d = ''Accept'') = is_match" by simp
  moreover from se have "composed_messages (new_events w w3) = [(email_subject, email_body)]"
    by (auto simp: send_email_def Let_def new_events_def tr split: option.splits)
  ultimately show ?thesis using ec w' by simp
qed

text \<open>
  C8. The subject and the body are a fixed template for each decision, into which
  the name of the applicant and the title of the job are put as they are; and the
  message the Orchestrator composes depends on nothing but the decision, the name
  and the title: two runs that agree on these three compose the same message,
  whatever the uploads, the addresses, the job descriptions, the thresholds, the
  answers of the model and the worlds they run in.
\<close>

theorem composer_depends_on_decision_name_title:
  "(\<exists>subject_prefix greeting middle ending. \<forall>applicant_name job_title.
      email_content applicant_name job_title True =
        (subject_prefix @ job_title,
         greeting @ applicant_name @ middle @ job_title @ ending)) \<and>
   (\<exists>subject_prefix greeting middle ending. \<forall>applicant_name job_title.
      email_content applicant_name job_title False =
        (subject_prefix @ job_title,
         greeting @ applicant_name @ middle @ job_title @ ending)) \<and>
   (process_application ev w cv_file applicant_name applicant_email job_title
      job_description match_threshold = (Inr r, w') \<and>
    process_application ev' v cv_file' applicant_name applicant_email' job_title
      job_description' match_threshold' = (Inr r', v') \<and>
    map_of r ''recommendation'' = Some (PStr d) \<and>
    map_of r' ''recommendation'' = Some (PStr d) \<longrightarrow>
      composed_messages (new_events w w') =
        [email_content applicant_name job_title (d = ''Accept'')] \<and>
      composed_messages (new_events v v') = composed_messages (new_events w w'))"
proof (intro conjI impI)
  show "\<exists>subject_prefix greeting middle ending. \<forall>applicant_name job_title.
      email_content applicant_name job_title True =
        (subject_prefix @ job_title,
         greeting @ applicant_name @ middle @ job_title @ ending)"
    apply (rule exI [of _ "''Congratulations! Your Application for ''"])
    apply (rule exI [of _ "''Dear ''"])
    apply (rule exI [of _ "'',\<newline>\<newline>We are pleased to inform you that your CV has been reviewed and shows a strong match with our ''"])
    apply (rule exI [of _ "'' position.\<newline>We would like to invite you to the next stage of our recruitment process.\<newline>Our team will contact you shortly with further details.\<newline>\<newline>Before that you need to complete this MCQ based test.\<newline>MCQs.\<newline>1. What is the capital of France?\<newline>Option A: Paris\<newline>Option B: London\<newline>Option C: New York\<newline>Option D: Tokyo\<newline>\<newline>Best regards,\<newline>Recruitment Team\<newline>''"])
    apply (simp add: email_content_def)
    done
next
  show "\<exists>subject_prefix greeting middle ending. \<forall>applicant_name job_title.
      email_content applicant_name job_title False =
        (subject_prefix @ job_title,
         greeting @ applicant_name @ middle @ job_title @ ending)"
    apply (rule exI [of _ "''Regarding your application for ''"])
    apply (rule exI [of _ "''Dear ''"])
    apply (rule exI [of _ "'',\<newline>\<newline>Thank you for your interest in the ''"])
    apply (rule exI [of _ "'' position.\<newline>After careful review of your application, we regret to inform you that we will not be moving forward with your candidacy at this time.\<newline>We appreciate your interest in our company and wish you the best in your job search.\<newline>\<newline>Best regards,\<newline>Recruitment Team\<newline>''"])
    apply (simp add: email_content_def)
    done
next
  assume h: "process_application ev w cv_file applicant_name applicant_email job_title
      job_description match_threshold = (Inr r, w') \<and>
    process_application ev' v cv_file' applicant_name applicant_email' job_title
      job_description' match_threshold' = (Inr r', v') \<and>
    map_of r ''recommendation'' = Some (PStr d) \<and>
    map_of r' ''recommendation'' = Some (PStr d)"
  then have a: "composed_messages (new_events w w') =
        [email_content applicant_name job_title (d = ''Accept'')]"
    using composed_on_success by blast
  from h have b: "composed_messages (new_events v v') =
        [email_content applicant_name job_title (d = ''Accept'')]"
    using composed_on_success by blast
  from a show "composed_messages (new_events w w') =
        [email_content applicant_name job_title (d = ''Accept'')]" .
  from a b show "composed_messages (new_events v v') = composed_messages (new_events w w')"
    by simp
qed

theorem composer_depends_on_decision_name_title_witness:
  "composed_messages (new_events world0 \<lparr>tmp_next = 1, tmp_dirs = [],
       trace = [Composed (fst (email_content ''Ann'' ''Engineer'' False))
                  (snd (email_content ''Ann'' ''Engineer'' False)),
                SendCall ''other@example.org'' (fst (email_content ''Ann'' ''Engineer'' False))
                  (snd (email_content ''Ann'' ''Engineer'' False))]\<rparr>) =
   composed_messages (new_events world0 \<lparr>tmp_next = 1, tmp_dirs = [],
       trace = [Composed (fst (email_content ''Ann'' ''Engineer'' False))
                  (snd (email_content ''Ann'' ''Engineer'' False)),
                SendCall ''ann@example.org'' (fst (email_content ''Ann'' ''Engineer'' False))
                  (snd (email_content ''Ann'' ''Engineer'' False)),
                Delivered ''ann@example.org'' (fst (email_content ''Ann'' ''Engineer'' False))
                  (snd (email_content ''Ann'' ''Engineer'' False))]\<rparr>)"
proof -
  let ?t = "ustr ''Match Percentage: 65, Recommendation: REJECT''"
  let ?s = "fst (email_content ''Ann'' ''Engineer'' False)"
  let ?b = "snd (email_content ''Ann'' ''Engineer'' False)"
  have run1: "process_application (env_of good_pdf (Inr (RStr ?t)) None) world0 cv_upload
      ''Ann'' ''ann@example.org'' ''Engineer'' ''Python, SQL, 3+ years'' 70 =
     (Inr [(''success'', PBool True),
           (''applicant_name'', PStr ''Ann''),
           (''job_title'', PStr ''Engineer''),
           (''match_percentage'', PInt 65),
           (''recommendation'', PStr ''Reject''),
           (''email_sent'', PBool True),
           (''email_message'', PStr ''Email sent successfully!''),
           (''analysis'', PText ?t)],
      \<lparr>tmp_next = 1, tmp_dirs = [],
       trace = [Composed ?s ?b, SendCall ''ann@example.org'' ?s ?b,
                Delivered ''ann@example.org'' ?s ?b]\<rparr>)"
    by (simp add: process_application_def world_eval parse_65_reject reject_not_accept
        ustr_not_empty Let_def case_prod_beta)
  have run2: "process_application (env_of good_pdf (Inr (ROther ?t)) relay_down)
      \<lparr>tmp_next = 0, tmp_dirs = [], trace = []\<rparr>
      \<lparr>upload_name = ''ann_cv.pdf'', upload_buffer = [37, 80]\<rparr>
      ''Ann'' ''other@example.org'' ''Engineer'' ''Go, Rust'' 90 =
     (Inr [(''success'', PBool True),
           (''applicant_name'', PStr ''Ann''),
           (''job_title'', PStr ''Engineer''),
           (''match_percentage'', PInt 65),
           (''recommendation'', PStr ''Reject''),
           (''email_sent'', PBool False),
           (''email_message'', PStr ''Failed to send email: [Errno 111] Connection refused''),
           (''analysis'', PText ?t)],
      \<lparr>tmp_next = 1, tmp_dirs = [],
       trace = [Composed ?s ?b, SendCall ''other@example.org'' ?s ?b]\<rparr>)"
    by (simp add: process_application_def world_eval parse_65_reject reject_not_accept
        ustr_not_empty Let_def case_prod_beta)
  have k1: "map_of [(''success'', PBool True),
           (''applicant_name'', PStr ''Ann''),
           (''job_title'', PStr ''Engineer''),
           (''match_percentage'', PInt 65),
           (''recommendation'', PStr ''Reject''),
           (''email_sent'', PBool True),
           (''email_message'', PStr ''Email sent successfully!''),
           (''analysis'', PText ?t)] ''recommendation'' = Some (PStr ''Reject'')"
    by simp
  have k2: "map_of [(''success'', PBool True),
           (''applicant_name'', PStr ''Ann''),
           (''job_title'', PStr ''Engineer''),
           (''match_percentage'', PInt 65),
           (''recommendation'', PStr ''Reject''),
           (''email_sent'', PBool False),
           (''email_message'', PStr ''Failed to send email: [Errno 111] Connection refused''),
           (''analysis'', PText ?t)] ''recommendation'' = Some (PStr ''Reject'')"
    by simp
  from composer_depends_on_decision_name_title [THEN conjunct2, THEN conjunct2, rule_format,
      OF conjI [OF run1 conjI [OF run2 [unfolded world0_def [symmetric]] conjI [OF k1 k2]]]]
  show ?thesis
    by (simp only: world0_def)
qed


section \<open>Percentage parsing\<close>

lemmas ok_eval =
  parse_percentage_def re_search_def match_percentage_pattern_def alt_patterns_def
  int_group1_def group1_def py_int_def exceeds_digit_limit_def digits_value_def
  digit_val_def is_digit_def is_space_def ci_class_def ustr_def ascii_decimal_def
  ascii_whitespace_def

lemmas first_match_eval =
  labelled_recommendation_patterns_def percentage_patterns_def parse_eval

lemma number_82: "runtime_ok rt \<Longrightarrow> is_number rt (ustr ''82'')"
  by (simp add: is_number_def is_digit_def ustr_def ok_decimal ascii_decimal_def)

lemma label_82: "ustr ''Match Percentage: 82'' = ustr ''Match Percentage: '' @ ustr ''82''"
  by (simp add: ustr_def)

text \<open>
  C5, as stated, does not hold for every text that contains one of the two
  phrases: an earlier match of the primary pattern, a digit directly after the
  phrase, or an earlier match of the last fallback pattern decides the result.
\<close>

theorem phrase_not_decisive_counterexample:
  "parse_percentage latin1_runtime
     (ustr ''Match Percentage: 10; '' @ ustr ''Match Percentage: 82'') = Inr 10 \<and>
   parse_percentage latin1_runtime (ustr ''Match Percentage: 82'' @ ustr ''0'') = Inr 820 \<and>
   \<not> occurs_ic ''Match Percentage'' (ustr ''match 5%; '' @ ustr ''match score around 82%'') \<and>
   parse_percentage latin1_runtime (ustr ''match 5%; '' @ ustr ''match score around 82%'') = Inr 5"
  by (simp add: parse_eval same_word_def)

text \<open>
  C5. On every interpreter whose tables are as assumed: percentage parsing takes
  the first of the four percentage patterns, the primary pattern and then the three
  fallback patterns in their order, that matches the response text, and returns the
  number it captured, when the number is within the limit of \<^verbatim>\<open>int\<close>; when none of
  them matches it returns 0. A text in which ``Match Percentage: 82'' is not
  followed by a digit, and in which the primary pattern matches at no earlier
  position, yields 82. A text in which the label ``Match Percentage'' does not
  occur, in either case, and in which ``match score around 82\%'' is preceded by no
  match of the last fallback pattern, yields 82. The two phrases on their own yield
  82. Three texts tell the patterns and their order apart: the primary pattern goes
  before the fallback with the percent sign, this one before the fallback with any
  text between, and this one before the last.
\<close>

theorem percentage_parsing:
  assumes ok: "runtime_ok rt"
  shows
  "(first_match rt percentage_patterns t = None \<longrightarrow> parse_percentage rt t = Inr 0) \<and>
   (\<forall>m. first_match rt percentage_patterns t = Some m \<longrightarrow>
      (\<exists>ds. group1 m = Some ds \<and> is_number rt ds \<and>
         (within_digit_limit rt ds \<longrightarrow> parse_percentage rt t = Inr (digits_value rt ds)))) \<and>
   (\<forall>pre post.
      (\<forall>i<length pre. \<not> matches_at rt False match_percentage_pattern
          (pre @ ustr ''Match Percentage: 82'' @ post) i) \<and>
      (post = [] \<or> \<not> is_digit rt (hd post)) \<longrightarrow>
      parse_percentage rt (pre @ ustr ''Match Percentage: 82'' @ post) = Inr 82) \<and>
   (\<forall>pre post.
      \<not> occurs_ic ''Match Percentage'' (pre @ ustr ''match score around 82%'' @ post) \<and>
      (\<forall>i<length pre. \<not> matches_at rt True (last alt_patterns)
          (pre @ ustr ''match score around 82%'' @ post) i) \<longrightarrow>
      parse_percentage rt (pre @ ustr ''match score around 82%'' @ post) = Inr 82) \<and>
   parse_percentage rt (ustr ''Match Percentage: 82'') = Inr 82 \<and>
   parse_percentage rt (ustr ''match score around 82%'') = Inr 82 \<and>
   parse_percentage rt (ustr ''Match Percentage: 10, match percentage: 82%'') = Inr 10 \<and>
   parse_percentage rt (ustr ''match percentage about 10. match percentage: 82%'') = Inr 82 \<and>
   parse_percentage rt (ustr ''a match of 5%, Match percentage about 82'') = Inr 82"
proof (intro conjI allI impI)
  assume "first_match rt percentage_patterns t = None"
  with parse_percentage_value [of rt t] show "parse_percentage rt t = Inr 0" by simp
next
  fix m
  assume "first_match rt percentage_patterns t = Some m"
  with parse_percentage_value [of rt t] obtain ds
    where ds: "group1 m = Some ds" "is_number rt ds" "parse_percentage rt t = py_int rt ds"
    by blast
  have "within_digit_limit rt ds \<longrightarrow> parse_percentage rt t = Inr (digits_value rt ds)"
    using ds(2,3) by (simp add: py_int_number)
  with ds(1,2)
  show "\<exists>ds. group1 m = Some ds \<and> is_number rt ds \<and>
         (within_digit_limit rt ds \<longrightarrow> parse_percentage rt t = Inr (digits_value rt ds))"
    by (intro exI conjI)
next
  fix pre post
  assume h: "(\<forall>i<length pre. \<not> matches_at rt False match_percentage_pattern
          (pre @ ustr ''Match Percentage: 82'' @ post) i) \<and>
      (post = [] \<or> \<not> is_digit rt (hd post))"
  from h have "\<forall>i<length pre. \<not> matches_at rt False match_percentage_pattern
          (pre @ ustr ''Match Percentage: '' @ ustr ''82'' @ post) i"
    by (simp add: label_82)
  with ok number_82 [OF ok] h
  have "parse_percentage rt (pre @ ustr ''Match Percentage: '' @ ustr ''82'' @ post) =
      py_int rt (ustr ''82'')"
    by (intro parse_percentage_at_label) simp_all
  then show "parse_percentage rt (pre @ ustr ''Match Percentage: 82'' @ post) = Inr 82"
    by (simp add: label_82 py_int_82 [OF ok])
next
  fix pre post
  assume "\<not> occurs_ic ''Match Percentage'' (pre @ ustr ''match score around 82%'' @ post) \<and>
      (\<forall>i<length pre. \<not> matches_at rt True (last alt_patterns)
          (pre @ ustr ''match score around 82%'' @ post) i)"
  with ok show "parse_percentage rt (pre @ ustr ''match score around 82%'' @ post) = Inr 82"
    by (intro parse_percentage_at_phrase) simp_all
next
  show "parse_percentage rt (ustr ''Match Percentage: 82'') = Inr 82"
    by (simp add: ok_eval ok_decimal [OF ok] ok_whitespace [OF ok])
next
  show "parse_percentage rt (ustr ''match score around 82%'') = Inr 82"
    by (simp add: ok_eval ok_decimal [OF ok] ok_whitespace [OF ok])
next
  show "parse_percentage rt (ustr ''Match Percentage: 10, match percentage: 82%'') = Inr 10"
    by (simp add: ok_eval ok_decimal [OF ok] ok_whitespace [OF ok])
next
  show "parse_percentage rt (ustr ''match percentage about 10. match percentage: 82%'') = Inr 82"
    by (simp add: ok_eval ok_decimal [OF ok] ok_whitespace [OF ok])
next
  show "parse_percentage rt (ustr ''a match of 5%, Match percentage about 82'') = Inr 82"
    by (simp add: ok_eval ok_decimal [OF ok] ok_whitespace [OF ok])
qed

theorem percentage_parsing_witness:
  "parse_percentage latin1_runtime (ustr ''No figure is given.'') = Inr 0 \<and>
   parse_percentage latin1_runtime (ustr ''Match Percentage: 250'') = Inr 250 \<and>
   parse_percentage latin1_runtime
     (ustr ''Fit: '' @ ustr ''Match Percentage: 82'' @ ustr ''%.'') = Inr 82 \<and>
   parse_percentage latin1_runtime
     (ustr ''A '' @ ustr ''match score around 82%'' @ ustr '' is fair.'') = Inr 82"
proof -
  have a: "first_match latin1_runtime percentage_patterns (ustr ''No figure is given.'') = None"
    by (simp add: first_match_eval)
  have b: "first_match latin1_runtime percentage_patterns (ustr ''Match Percentage: 250'') =
      Some (Some 0x30, [], Some (ustr ''250''))"
    by (simp add: first_match_eval)
  have b': "digits_value latin1_runtime (ustr ''250'') = 250"
    by (simp add: digits_value_def digit_val_def ustr_def latin1_runtime_def ascii_decimal_def)
  have b'': "within_digit_limit latin1_runtime (ustr ''250'')"
    by (simp add: within_digit_limit_def exceeds_digit_limit_def ustr_def)
  have c: "\<forall>i<length (ustr ''Fit: ''). \<not> matches_at latin1_runtime False match_percentage_pattern
          (ustr ''Fit: '' @ ustr ''Match Percentage: 82'' @ ustr ''%.'') i"
    by (simp add: All_less_Suc matches_at_def prev_char_def match_percentage_pattern_def ustr_def)
  have c': "ustr ''%.'' = [] \<or> \<not> is_digit latin1_runtime (hd (ustr ''%.''))"
    by (simp add: is_digit_def ustr_def latin1_runtime_def ascii_decimal_def)
  have d: "\<not> occurs_ic ''Match Percentage''
      (ustr ''A '' @ ustr ''match score around 82%'' @ ustr '' is fair.'')"
    by (simp add: same_word_def ci_class_def ustr_def)
  have d': "\<forall>i<length (ustr ''A ''). \<not> matches_at latin1_runtime True (last alt_patterns)
          (ustr ''A '' @ ustr ''match score around 82%'' @ ustr '' is fair.'') i"
    by (simp add: All_less_Suc matches_at_def prev_char_def alt_patterns_def ci_class_def ustr_def)
  note th = percentage_parsing [OF runtime_ok_latin1, of "ustr ''No figure is given.''"]
  note th2 = percentage_parsing [OF runtime_ok_latin1, of "ustr ''Match Percentage: 250''"]
  from th [THEN conjunct1, rule_format, OF a]
  have 1: "parse_percentage latin1_runtime (ustr ''No figure is given.'') = Inr 0" .
  from th2 [THEN conjunct2, THEN conjunct1, rule_format, OF b] b' b''
  have 2: "parse_percentage latin1_runtime (ustr ''Match Percentage: 250'') = Inr 250"
    by (auto simp: group1_def)
  from th [THEN conjunct2, THEN conjunct2, THEN conjunct1, rule_format,
      of "ustr ''Fit: ''" "ustr ''%.''", OF conjI [OF c c']]
  have 3: "parse_percentage latin1_runtime
     (ustr ''Fit: '' @ ustr ''Match Percentage: 82'' @ ustr ''%.'') = Inr 82" .
  from th [THEN conjunct2, THEN conjunct2, THEN conjunct2, THEN conjunct1, rule_format,
      of "ustr ''A ''" "ustr '' is fair.''", OF conjI [OF d d']]
  have 4: "parse_percentage latin1_runtime
     (ustr ''A '' @ ustr ''match score around 82%'' @ ustr '' is fair.'') = Inr 82" .
  from 1 2 3 4 show ?thesis by (intro conjI)
qed


section \<open>Percentages above 100\<close>

lemma first_match_percentage_empty: "first_match rt percentage_patterns [] = None"
  by (simp add: first_match_eval)

lemma foldl_digits_ge:
  "0 \<le> a \<Longrightarrow> a \<le> foldl (\<lambda>n c. 10 * n + digit_val rt c) a s"
proof (induction s arbitrary: a)
  case Nil
  then show ?case by simp
next
  case (Cons c s)
  from Cons.prems digit_val_nonneg [of rt c] have "0 \<le> 10 * a + digit_val rt c" by simp
  from Cons.IH [OF this] Cons.prems digit_val_nonneg [of rt c] show ?case by simp
qed

lemma digits_value_append: "digits_value rt xs \<le> digits_value rt (xs @ ys)"
  unfolding digits_value_def foldl_append
  by (rule foldl_digits_ge) (rule foldl_digits_nonneg, simp)

lemma nines_number: "is_number latin1_runtime (replicate 4301 0x39)"
  by (simp add: is_number_def list_all_iff is_digit_def latin1_runtime_def ascii_decimal_def)

lemma nines_exceed: "exceeds_digit_limit latin1_runtime (replicate 4301 0x39)"
  by (simp add: exceeds_digit_limit_def latin1_runtime_def)

lemma nines_value: "100 < digits_value latin1_runtime (replicate 4301 0x39)"
proof -
  have "replicate 4301 (0x39 :: nat) = replicate 3 0x39 @ replicate 4298 0x39"
    unfolding replicate_add [symmetric] by simp
  then have "digits_value latin1_runtime (replicate 3 0x39) \<le>
      digits_value latin1_runtime (replicate 4301 0x39)"
    by (simp only: digits_value_append)
  moreover have "digits_value latin1_runtime (replicate 3 0x39) = 999"
    by (simp add: digits_value_def digit_val_def latin1_runtime_def ascii_decimal_def
        numeral_3_eq_3)
  ultimately show ?thesis by simp
qed

lemma nines_first_match:
  "first_match latin1_runtime percentage_patterns
     (ustr ''Match Percentage: '' @ replicate 4301 0x39) =
   Some (Some 0x39, [], Some (replicate 4301 0x39))"
proof -
  have r: "replicate 4301 (0x39 :: nat) = 0x39 # replicate 4300 0x39"
    by (simp add: replicate_Suc [symmetric] del: replicate_Suc)
  have d: "is_digit latin1_runtime 0x39" "list_all (is_digit latin1_runtime) (replicate 4300 0x39)"
    by (simp_all add: list_all_iff is_digit_def latin1_runtime_def ascii_decimal_def)
  from primary_search_at_label [OF runtime_ok_latin1 d, of "[]" None]
  have "search_from latin1_runtime False match_percentage_pattern None
      (ustr ''Match Percentage: '' @ replicate 4301 0x39) =
      Some (Some 0x39, [], Some (replicate 4301 0x39))"
    by (simp add: r)
  then show ?thesis
    by (simp add: percentage_patterns_def re_search_def)
qed

text \<open>
  C9, as stated, does not hold for every number above 100: when the number has more
  digits than \<^verbatim>\<open>int\<close> converts, the Evaluator returns nothing, and the Orchestrator
  returns no record. Here the first percentage pattern that matches captures 4301
  nines.
\<close>

theorem long_percentage_counterexample:
  "first_match latin1_runtime percentage_patterns
     (ustr ''Match Percentage: '' @ replicate 4301 0x39) =
     Some (Some 0x39, [], Some (replicate 4301 0x39)) \<and>
   100 < digits_value latin1_runtime (replicate 4301 0x39) \<and>
   process_application
     (env_of good_pdf (Inr (RStr (ustr ''Match Percentage: '' @ replicate 4301 0x39))) None)
     world0 cv_upload ''Ann'' ''ann@example.org'' ''Engineer'' ''Python, SQL, 3+ years'' 70 =
     (Inl (Exn ''ValueError''
        ''Exceeds the limit (4300 digits) for integer string conversion: value has 4301 digits; use sys.set_int_max_str_digits() to increase the limit''),
      \<lparr>tmp_next = 1, tmp_dirs = [], trace = []\<rparr>)"
proof -
  have p: "parse_response latin1_runtime (ustr ''Match Percentage: '' @ replicate 4301 0x39) =
     Inl (Exn ''ValueError''
       ''Exceeds the limit (4300 digits) for integer string conversion: value has 4301 digits; use sys.set_int_max_str_digits() to increase the limit'')"
    using parse_long_number [OF runtime_ok_latin1 nines_number nines_exceed]
    by (simp add: latin1_limit show_4300 show_4301)
  have "process_application
     (env_of good_pdf (Inr (RStr (ustr ''Match Percentage: '' @ replicate 4301 0x39))) None)
     world0 cv_upload ''Ann'' ''ann@example.org'' ''Engineer'' ''Python, SQL, 3+ years'' 70 =
     (Inl (Exn ''ValueError''
        ''Exceeds the limit (4300 digits) for integer string conversion: value has 4301 digits; use sys.set_int_max_str_digits() to increase the limit''),
      \<lparr>tmp_next = 1, tmp_dirs = [], trace = []\<rparr>)"
    by (simp add: process_application_def world_eval p)
  with nines_first_match nines_value show ?thesis by (intro conjI)
qed

text \<open>
  C9. The percentage is not clamped. When the number captured by the first
  percentage pattern that matches the response text is above 100, and within the
  limit of \<^verbatim>\<open>int\<close>, the Evaluator returns that number as it is, and for every
  threshold up to 100 the Orchestrator returns a record with that number as the
  match percentage and with the recommendation \<open>Accept\<close>, whatever the Evaluator's
  own recommendation is.
\<close>

theorem percentage_not_clamped:
  assumes "pdf_loader ev w cv_file = (Inr cv_text, w1)"
    and "chain_invoke ev cv_text job_description = Inr response"
    and "first_match (interpreter ev) percentage_patterns (response_text_of response) = Some m"
    and "group1 m = Some g"
    and "within_digit_limit (interpreter ev) g"
    and "100 < digits_value (interpreter ev) g"
    and "match_threshold \<le> 100"
  shows "parse_percentage (interpreter ev) (response_text_of response) =
           Inr (digits_value (interpreter ev) g) \<and>
         (\<exists>recommendation. analyz_match ev cv_text job_description =
            Inr (response_text_of response, digits_value (interpreter ev) g, recommendation)) \<and>
         (\<exists>r w'. process_application ev w cv_file applicant_name applicant_email job_title
             job_description match_threshold = (Inr r, w') \<and>
           map_of r ''success'' = Some (PBool True) \<and>
           map_of r ''match_percentage'' = Some (PInt (digits_value (interpreter ev) g)) \<and>
           map_of r ''recommendation'' = Some (PStr ''Accept''))"
proof -
  let ?rt = "interpreter ev"
  let ?t = "response_text_of response"
  from parse_percentage_value [of ?rt ?t] assms(3,4)
  have "is_number ?rt g" "parse_percentage ?rt ?t = py_int ?rt g" by simp_all
  with assms(5) have pp: "parse_percentage ?rt ?t = Inr (digits_value ?rt g)"
    by (simp add: py_int_number)
  from parse_recommendation_returns [of ?rt ?t] obtain rc
    where rc: "parse_recommendation ?rt ?t = Inr rc" ..
  from pp rc have "parse_response ?rt ?t = Inr (?t, digits_value ?rt g, rc)"
    by (simp add: parse_response_def)
  with assms(2)
  have am: "analyz_match ev cv_text job_description = Inr (?t, digits_value ?rt g, rc)"
    by (simp add: analyz_match_def)
  have ne: "?t \<noteq> []"
  proof
    assume "?t = []"
    with assms(3) first_match_percentage_empty [of ?rt] show False by simp
  qed
  define is_match
    where "is_match = (match_threshold \<le> digits_value ?rt g \<or> rc = ustr ''ACCEPT'')"
  from assms(6,7) have im: is_match by (simp add: is_match_def)
  obtain email_subject email_body
    where ec: "email_content applicant_name job_title is_match = (email_subject, email_body)"
    by (cases "email_content applicant_name job_title is_match")
  obtain email_success email_message w3
    where se: "send_email ev (w1\<lparr>trace := trace w1 @ [Composed email_subject email_body]\<rparr>)
           applicant_email email_subject email_body = ((email_success, email_message), w3)"
    by (metis surj_pair)
  note pa = process_application_notified [OF assms(1) am ne is_match_def ec se]
  have "\<exists>r w'. process_application ev w cv_file applicant_name applicant_email job_title
             job_description match_threshold = (Inr r, w') \<and>
           map_of r ''success'' = Some (PBool True) \<and>
           map_of r ''match_percentage'' = Some (PInt (digits_value ?rt g)) \<and>
           map_of r ''recommendation'' = Some (PStr ''Accept'')"
    unfolding pa using im by simp
  moreover from am have "\<exists>recommendation. analyz_match ev cv_text job_description =
            Inr (?t, digits_value ?rt g, recommendation)" ..
  ultimately show ?thesis using pp by (intro conjI)
qed

theorem percentage_not_clamped_witness:
  "parse_percentage latin1_runtime (ustr ''Match Percentage: 250'') = Inr 250 \<and>
   (\<exists>r w'. process_application
       (env_of good_pdf (Inr (RStr (ustr ''Match Percentage: 250''))) None)
       world0 cv_upload ''Ann'' ''ann@example.org'' ''Engineer'' ''Python, SQL, 3+ years'' 100
        = (Inr r, w') \<and>
      map_of r ''match_percentage'' = Some (PInt 250) \<and>
      map_of r ''recommendation'' = Some (PStr ''Accept''))"
proof -
  let ?ev = "env_of good_pdf (Inr (RStr (ustr ''Match Percentage: 250''))) None"
  have a: "pdf_loader ?ev world0 cv_upload =
           (Inr ''Python, SQL, 5 years experience'', \<lparr>tmp_next = 1, tmp_dirs = [], trace = []\<rparr>)"
    by (simp add: world_eval)
  have b: "chain_invoke ?ev ''Python, SQL, 5 years experience'' ''Python, SQL, 3+ years'' =
           Inr (RStr (ustr ''Match Percentage: 250''))"
    by (simp add: env_of_def)
  have c: "first_match (interpreter ?ev) percentage_patterns
        (response_text_of (RStr (ustr ''Match Percentage: 250''))) =
      Some (Some 0x30, [], Some (ustr ''250''))"
    by (simp add: interpreter_env_of first_match_eval)
  have d: "group1 (Some 0x30, [], Some (ustr ''250'')) = Some (ustr ''250'')"
    by (simp add: group1_def)
  have v: "digits_value (interpreter ?ev) (ustr ''250'') = 250"
    by (simp add: interpreter_env_of digits_value_def digit_val_def ustr_def latin1_runtime_def
        ascii_decimal_def)
  have l: "within_digit_limit (interpreter ?ev) (ustr ''250'')"
    by (simp add: within_digit_limit_def exceeds_digit_limit_def ustr_def)
  have e: "100 < digits_value (interpreter ?ev) (ustr ''250'')" by (simp add: v)
  have f: "(100::int) \<le> 100" by simp
  have v': "digits_value latin1_runtime (ustr ''250'') = 250"
    using v by (simp only: interpreter_env_of)
  note th = percentage_not_clamped [OF a b c d l e f,
      of "''Ann''" "''ann@example.org''" "''Engineer''",
      unfolded response_text_of.simps interpreter_env_of v']
  from th have p: "parse_percentage latin1_runtime (ustr ''Match Percentage: 250'') = Inr 250"
    by (rule conjunct1)
  from th obtain r w'
    where "process_application ?ev
       world0 cv_upload ''Ann'' ''ann@example.org'' ''Engineer'' ''Python, SQL, 3+ years'' 100
        = (Inr r, w')"
      and "map_of r ''match_percentage'' = Some (PInt 250)"
      and "map_of r ''recommendation'' = Some (PStr ''Accept'')"
    by (elim conjE exE)
  then have "\<exists>r w'. process_application ?ev
       world0 cv_upload ''Ann'' ''ann@example.org'' ''Engineer'' ''Python, SQL, 3+ years'' 100
        = (Inr r, w') \<and>
      map_of r ''match_percentage'' = Some (PInt 250) \<and>
      map_of r ''recommendation'' = Some (PStr ''Accept'')"
    by (intro exI conjI)
  with p show ?thesis by (rule conjI)
qed

end
